theory Spec2Isabelle
  imports Complex_Main
begin

section \<open>Data model\<close>

text \<open>
  The \<open>Frames\<close> component of react-frames, as a state record and functions on it.

  \<^item> \<open>props\<close> are the \<open>IProps\<close> the claims depend on. Indices and counts are integers,
    sizes and deltas are real numbers (the rounding of JavaScript's doubles is not
    modelled). \<open>onFrameUpdate\<close> says whether the host supplied the callback; the calls
    it receives are recorded, oldest first, in the field \<open>notified\<close> of the component.
    \<open>children\<close> is the list of the child nodes that render as frames. Empty nodes
    (\<open>null\<close>, booleans), which \<open>Children.count\<close> counts and \<open>Children.toArray\<close> drops, are
    not modelled, so both functions give the length of this list.
  \<^item> \<open>component\<close> holds the instance fields and the part of the DOM the code writes:
    \<open>moved\<close> is the sequence of offsets written to the container's transform (the last
    one is the current position), \<open>moving\<close> says whether the transition class is set,
    \<open>timers\<close> are the callbacks handed to \<open>setTimeout\<close> that have not run yet, and
    \<open>stopped\<close> records \<open>hammer.stop(true)\<close>.
  \<^item> \<open>completion\<close> is the closure \<open>goToFrame\<close> passes to \<open>moveContainerBy\<close>, by the
    variables it captures: \<open>index\<close>, \<open>framesCount\<close>, \<open>loop\<close> and \<open>onFrameUpdate\<close>.
  \<^item> \<open>hammer_input\<close> is the part of a Hammer event the handler reads: its type, both
    deltas and the type of the source event.
\<close>

record 'a props =
  draggable :: bool
  swipeable :: bool
  isVertical :: bool
  frameBoundary :: real
  startFrame :: int
  loop :: bool
  clonesCount :: int
  onFrameUpdate :: bool
  children :: "'a list"

record completion =
  c_index :: int
  c_framesCount :: int
  c_loop :: bool
  c_onFrameUpdate :: bool

record 'a component =
  props :: "'a props"
  SWIPE_PREV :: string
  SWIPE_NEXT :: string
  PAN_PREV :: string
  PAN_NEXT :: string
  PAN_START :: string
  PAN_END :: string
  PAN_CANCEL :: string
  frameSize :: real
  activeIndex :: int
  moved :: "real list"
  moving :: bool
  timers :: "completion option list"
  notified :: "int list"
  stopped :: bool

record hammer_input =
  e_type :: string
  deltaX :: real
  deltaY :: real
  srcEvent_type :: string

text \<open>
  \<open>getChildren\<close> with its two loops. Reading an array out of range gives \<open>undefined\<close>
  in JavaScript, here \<open>None\<close>. The result \<open>None\<close> of \<open>getChildren\<close> is \<open>null\<close>.
\<close>

definition js_index :: "'a list \<Rightarrow> int \<Rightarrow> 'a option" where
  "js_index arr i = (if 0 \<le> i \<and> i < int (length arr) then Some (arr ! nat i) else None)"

function pre_clones :: "'a list \<Rightarrow> int \<Rightarrow> int \<Rightarrow> 'a option list \<Rightarrow> 'a option list" where
  "pre_clones childrenArr lo i withClones =
     (if i \<ge> lo then pre_clones childrenArr lo (i - 1) (js_index childrenArr i # withClones)
      else withClones)"
  by pat_completeness auto
termination
  by (relation "measure (\<lambda>(childrenArr, lo, i, withClones). nat (i - lo + 1))") auto

function post_clones :: "'a list \<Rightarrow> int \<Rightarrow> int \<Rightarrow> 'a option list \<Rightarrow> 'a option list" where
  "post_clones childrenArr clones i withClones =
     (if i < clones
      then post_clones childrenArr clones (i + 1) (withClones @ [js_index childrenArr i])
      else withClones)"
  by pat_completeness auto
termination
  by (relation "measure (\<lambda>(childrenArr, clones, i, withClones). nat (clones - i))") auto

definition getChildren :: "'a list \<Rightarrow> int \<Rightarrow> 'a option list option" where
  "getChildren childrenArr clones =
     (let childrenCount = int (length childrenArr);
          withClones = map Some childrenArr
      in if childrenCount = 0 then None
         else Some (if clones \<noteq> 0
                    then post_clones childrenArr clones 0
                           (pre_clones childrenArr (childrenCount - clones) (childrenCount - 1) withClones)
                    else withClones))"

text \<open>
  The frame nodes are the children of the container that \<open>render\<close> produced from the
  current props; \<open>frames\<close> is the live \<open>childNodes\<close> list that \<open>init\<close> stores, so it is
  a function of the props. \<open>toInternal\<close> is the argument \<open>goTo\<close> passes to \<open>goToFrame\<close>
  and \<open>toPublic\<close> the argument a completion passes to \<open>onFrameUpdate\<close>.
\<close>

definition getClonesCount :: "'a component \<Rightarrow> int" where
  "getClonesCount s = min (clonesCount (props s)) (int (length (children (props s))))"

definition render :: "'a component \<Rightarrow> 'a option list option" where
  "render s = getChildren (children (props s)) (if loop (props s) then getClonesCount s else 0)"

definition frames :: "'a component \<Rightarrow> 'a option list" where
  "frames s = (case render s of None \<Rightarrow> [] | Some fs \<Rightarrow> fs)"

definition toPublic :: "bool \<Rightarrow> int \<Rightarrow> int \<Rightarrow> int" where
  "toPublic lp clones index = (if lp then index - clones else index)"

definition toInternal :: "'a component \<Rightarrow> int \<Rightarrow> int" where
  "toInternal s index = (if loop (props s) then index + getClonesCount s else index)"


declare pre_clones.simps [simp del]
declare post_clones.simps [simp del]

lemma length_pre_clones:
  "length (pre_clones arr lo i acc) = length acc + nat (i - lo + 1)"
proof (induction arr lo i acc rule: pre_clones.induct)
  case (1 arr lo i acc)
  show ?case
  proof (cases "i \<ge> lo")
    case True
    have "length (pre_clones arr lo i acc) = length (pre_clones arr lo (i - 1) (js_index arr i # acc))"
      using True by (subst pre_clones.simps) simp
    also have "\<dots> = length (js_index arr i # acc) + nat (i - 1 - lo + 1)"
      using "1.IH"[OF True] .
    also have "\<dots> = length acc + nat (i - lo + 1)"
      using True by simp
    finally show ?thesis .
  next
    case False
    then show ?thesis by (subst pre_clones.simps) simp
  qed
qed

lemma length_post_clones:
  "length (post_clones arr n i acc) = length acc + nat (n - i)"
proof (induction arr n i acc rule: post_clones.induct)
  case (1 arr n i acc)
  show ?case
  proof (cases "i < n")
    case True
    have "length (post_clones arr n i acc) = length (post_clones arr n (i + 1) (acc @ [js_index arr i]))"
      using True by (subst post_clones.simps) simp
    also have "\<dots> = length (acc @ [js_index arr i]) + nat (n - (i + 1))"
      using "1.IH"[OF True] .
    also have "\<dots> = length acc + nat (n - i)"
      using True by simp
    finally show ?thesis .
  next
    case False
    then show ?thesis by (subst post_clones.simps) simp
  qed
qed

lemma length_getChildren:
  "getChildren arr n = Some fs \<Longrightarrow> length fs = length arr + 2 * nat n"
  by (auto simp: getChildren_def Let_def length_pre_clones length_post_clones split: if_splits)

lemma getChildren_None: "getChildren arr n = None \<longleftrightarrow> arr = []"
  by (simp add: getChildren_def Let_def)

definition framesCount :: "'a component \<Rightarrow> int" where
  "framesCount s = int (length (frames s))"

lemma framesCount_eq:
  "framesCount s =
     (if children (props s) = [] then 0
      else int (length (children (props s)))
           + 2 * max 0 (if loop (props s) then getClonesCount s else 0))"
proof (cases "render s")
  case None
  then have "children (props s) = []"
    unfolding render_def by (simp only: getChildren_None)
  with None show ?thesis
    by (simp add: framesCount_def frames_def)
next
  case (Some fs)
  then have ne: "children (props s) \<noteq> []"
    by (auto simp: render_def getChildren_def)
  from Some have "length fs = length (children (props s))
      + 2 * nat (if loop (props s) then getClonesCount s else 0)"
    unfolding render_def by (rule length_getChildren)
  with Some ne show ?thesis
    by (simp add: framesCount_def frames_def)
qed

section \<open>Navigation\<close>

definition getNextIndex :: "'a component \<Rightarrow> bool \<Rightarrow> int" where
  "getNextIndex s forward =
     (let current = activeIndex s
      in if forward then min (current + 1) (framesCount s - 1) else max (current - 1) 0)"

definition isOutOfBounds :: "'a component \<Rightarrow> real \<Rightarrow> bool" where
  "isOutOfBounds s position =
     (let last = framesCount s - 1
      in (activeIndex s = 0 \<and> position \<ge> 0)
         \<or> (activeIndex s = last \<and> position \<le> - frameSize s * real_of_int last))"

text \<open>
  Ranks for the termination argument of the mutual recursion below: a synchronous
  completion that lands on a clone re-enters \<open>goToFrame\<close> at the first or last real
  index, which is either rejected by the guard or no clone any more.
\<close>

definition done_rank :: "'a component \<Rightarrow> completion \<Rightarrow> nat" where
  "done_rank s d =
     (if c_framesCount d = framesCount s \<and> c_loop d = loop (props s)
      then (if c_loop d \<and> (c_index d < getClonesCount s
                             \<or> c_index d > (c_framesCount d - 1) - getClonesCount s)
            then 3 else 0)
      else 6)"

definition go_rank :: "'a component \<Rightarrow> int \<Rightarrow> nat" where
  "go_rank s index =
     (if framesCount s = 0 \<or> index < 0 \<or> index > framesCount s then 0
      else if loop (props s) \<and> (index < getClonesCount s
                                  \<or> index > (framesCount s - 1) - getClonesCount s)
      then 5 else 2)"

definition move_rank :: "'a component \<Rightarrow> bool \<Rightarrow> completion option \<Rightarrow> nat" where
  "move_rank s animate done =
     (if animate then 0 else (case done of None \<Rightarrow> 0 | Some d \<Rightarrow> done_rank s d + 1))"

lemma getClonesCount_moved [simp]: "getClonesCount (s\<lparr>moved := m\<rparr>) = getClonesCount s"
  by (simp add: getClonesCount_def)

lemma framesCount_moved [simp]: "framesCount (s\<lparr>moved := m\<rparr>) = framesCount s"
  by (simp add: framesCount_def frames_def render_def)

lemma done_rank_moved [simp]: "done_rank (s\<lparr>moved := m\<rparr>) d = done_rank s d"
  by (simp add: done_rank_def)

lemma first_le_last:
  assumes "loop (props s)" and "framesCount s \<noteq> 0"
  shows "getClonesCount s \<le> (framesCount s - 1) - getClonesCount s"
proof -
  from assms(2) have ne: "children (props s) \<noteq> []"
    by (auto simp: framesCount_eq)
  then have pos: "1 \<le> int (length (children (props s)))"
    by (cases "children (props s)") simp_all
  have le: "getClonesCount s \<le> int (length (children (props s)))"
    by (simp add: getClonesCount_def)
  have "framesCount s = int (length (children (props s))) + 2 * max 0 (getClonesCount s)"
    using ne assms(1) by (simp add: framesCount_eq)
  with pos le show ?thesis by linarith
qed

text \<open>
  \<open>goToFrame\<close>, \<open>moveContainerBy\<close> and the completion callback \<open>goToFrame_done\<close> call each
  other: an unanimated move runs its callback at once, and a callback that landed on a
  clone calls \<open>goToFrame\<close> again. An animated move adds the transition class and leaves
  the callback in \<open>timers\<close>.
\<close>

function goToFrame :: "'a component \<Rightarrow> int \<Rightarrow> bool \<Rightarrow> 'a component"
  and moveContainerBy :: "'a component \<Rightarrow> real \<Rightarrow> bool \<Rightarrow> completion option \<Rightarrow> 'a component"
  and goToFrame_done :: "'a component \<Rightarrow> completion \<Rightarrow> 'a component"
where
  "goToFrame s index animate =
     (if framesCount s = 0 \<or> index < 0 \<or> index > framesCount s then s
      else moveContainerBy s (- real_of_int index * frameSize s) animate
             (Some \<lparr>c_index = index, c_framesCount = framesCount s,
                    c_loop = loop (props s), c_onFrameUpdate = onFrameUpdate (props s)\<rparr>))"
| "moveContainerBy s pixels animate done =
     (if animate
      then s\<lparr>moved := moved s @ [pixels], moving := True, timers := timers s @ [done]\<rparr>
      else (case done of
              None \<Rightarrow> s\<lparr>moved := moved s @ [pixels]\<rparr>
            | Some d \<Rightarrow> goToFrame_done (s\<lparr>moved := moved s @ [pixels]\<rparr>) d))"
| "goToFrame_done s d =
     (if c_loop d \<and> (c_index d < getClonesCount s
                       \<or> c_index d > (c_framesCount d - 1) - getClonesCount s)
      then goToFrame s (if activeIndex s \<le> c_index d then getClonesCount s
                        else (c_framesCount d - 1) - getClonesCount s) False
      else (if c_onFrameUpdate d
            then s\<lparr>activeIndex := c_index d,
                   notified := notified s @ [toPublic (c_loop d) (getClonesCount s) (c_index d)]\<rparr>
            else s\<lparr>activeIndex := c_index d\<rparr>))"
  by pat_completeness auto

termination
proof (relation "measure (\<lambda>x. case x of
          Inl (s, index, animate) \<Rightarrow> go_rank s index
        | Inr (Inl (s, pixels, animate, done)) \<Rightarrow> move_rank s animate done
        | Inr (Inr (s, d)) \<Rightarrow> done_rank s d)", goal_cases)
  case 1
  show ?case by simp
next
  case (2 s index animate)
  then show ?case
    by (simp add: go_rank_def move_rank_def done_rank_def)
next
  case (3 s animate dn d)
  then show ?case
    by (simp add: move_rank_def)
next
  case (4 s d)
  show ?case
  proof (cases "c_framesCount d = framesCount s \<and> c_loop d = loop (props s)")
    case False
    then have "done_rank s d = 6" by (simp add: done_rank_def)
    moreover have "go_rank s i \<le> 5" for i by (simp add: go_rank_def)
    ultimately show ?thesis
      by (simp add: less_Suc_eq_le[symmetric] del: One_nat_def) 
  next
    case True
    with 4 have lp: "loop (props s)" by simp
    from True 4 have r: "done_rank s d = 3" by (auto simp: done_rank_def)
    have "go_rank s (getClonesCount s) \<le> 2"
      using first_le_last[OF lp] by (auto simp: go_rank_def)
    moreover have "go_rank s ((framesCount s - 1) - getClonesCount s) \<le> 2"
      using first_le_last[OF lp] by (auto simp: go_rank_def)
    ultimately show ?thesis using r True by auto
  qed
qed

section \<open>Public interface, lifecycle and gestures\<close>

text \<open>
  \<open>next\<close> and \<open>prev\<close> are \<open>next_frame\<close> and \<open>prev_frame\<close> here. \<open>init\<close> takes the size that
  \<open>setSizes\<close> measures on the parent as its second argument; \<open>componentDidMount\<close>,
  \<open>recalculate\<close> and \<open>onWindowChanges\<close> all call it. \<open>onEvents\<close> is the handler Hammer
  calls with the events the component subscribed to. \<open>runTimer s k\<close> lets the \<open>k\<close>-th
  pending timeout fire: it removes the transition class and runs the callback.
\<close>

definition constructor :: "'a props \<Rightarrow> 'a component" where
  "constructor p =
     \<lparr>props = p,
      SWIPE_PREV = (if isVertical p then ''swipeup'' else ''swipeleft''),
      SWIPE_NEXT = (if isVertical p then ''swipedown'' else ''swiperight''),
      PAN_PREV = (if isVertical p then ''panup'' else ''panleft''),
      PAN_NEXT = (if isVertical p then ''pandown'' else ''panright''),
      PAN_START = ''panstart'',
      PAN_END = ''panend'',
      PAN_CANCEL = ''pancancel'',
      frameSize = 0,
      activeIndex = startFrame p,
      moved = [],
      moving = False,
      timers = [],
      notified = [],
      stopped = False\<rparr>"

definition next_frame :: "'a component \<Rightarrow> 'a component" where
  "next_frame s = goToFrame s (getNextIndex s True) True"

definition prev_frame :: "'a component \<Rightarrow> 'a component" where
  "prev_frame s = goToFrame s (getNextIndex s False) True"

definition goTo :: "'a component \<Rightarrow> int \<Rightarrow> 'a component" where
  "goTo s index = goToFrame s (toInternal s index) True"

definition init :: "'a component \<Rightarrow> real \<Rightarrow> 'a component" where
  "init s measured = goToFrame (s\<lparr>frameSize := measured\<rparr>) (activeIndex s) False"

definition recalculate :: "'a component \<Rightarrow> real \<Rightarrow> 'a component" where
  "recalculate s measured = init s measured"

definition componentDidMount :: "'a component \<Rightarrow> real \<Rightarrow> 'a component" where
  "componentDidMount s measured = init s measured"

definition onWindowChanges :: "'a component \<Rightarrow> real \<Rightarrow> 'a component" where
  "onWindowChanges s measured = init s measured"

definition axis_delta :: "'a component \<Rightarrow> hammer_input \<Rightarrow> real" where
  "axis_delta s e = (if isVertical (props s) then deltaY e else deltaX e)"

definition onEvents :: "'a component \<Rightarrow> hammer_input \<Rightarrow> 'a component" where
  "onEvents s e =
     (let delta = axis_delta s e
      in if srcEvent_type e = ''pointercancel'' then s
         else if e_type e = PAN_PREV s \<or> e_type e = PAN_NEXT s then
           (let framePos = - real_of_int (activeIndex s) * frameSize s
            in if \<bar>delta\<bar> > frameSize s
               then (if delta > 0 then prev_frame s else next_frame s)\<lparr>stopped := True\<rparr>
               else moveContainerBy s
                      (framePos + (if isOutOfBounds s (framePos + delta) \<and> \<not> loop (props s)
                                   then delta * 0.15 else delta))
                      False None)
         else if e_type e = SWIPE_PREV s \<or> e_type e = SWIPE_NEXT s then
           (if delta > 0 then prev_frame s else next_frame s)\<lparr>stopped := True\<rparr>
         else if e_type e = PAN_END s \<or> e_type e = PAN_CANCEL s then
           (if \<bar>delta\<bar> > frameSize s * frameBoundary (props s)
            then (if delta > 0 then prev_frame s else next_frame s)
            else goToFrame s (activeIndex s) True)
         else s)"

definition runTimer :: "'a component \<Rightarrow> nat \<Rightarrow> 'a component" where
  "runTimer s k =
     (if k < length (timers s)
      then (case timers s ! k of
              None \<Rightarrow> s\<lparr>timers := take k (timers s) @ drop (Suc k) (timers s), moving := False\<rparr>
            | Some d \<Rightarrow>
                goToFrame_done
                  (s\<lparr>timers := take k (timers s) @ drop (Suc k) (timers s), moving := False\<rparr>) d)
      else s)"

text \<open>
  A schedule is a sequence of calls of \<open>next\<close> and \<open>prev\<close> and of pending timeouts
  firing, in any order; \<open>run\<close> performs it.
\<close>

datatype action = Next | Prev | Fire nat

fun perform :: "'a component \<Rightarrow> action \<Rightarrow> 'a component" where
  "perform s Next = next_frame s"
| "perform s Prev = prev_frame s"
| "perform s (Fire k) = runTimer s k"

fun run :: "'a component \<Rightarrow> action list \<Rightarrow> 'a component" where
  "run s [] = s"
| "run s (a # as) = run (perform s a) as"

text \<open>
  The configuration of the README and of the specification's examples: three frames,
  \<open>clonesCount = 2\<close>, \<open>frameBoundary = 0.25\<close>, a host that listens to
  \<open>onFrameUpdate\<close>; \<open>mounted\<close> is the component after \<open>componentDidMount\<close> with a
  parent measured at 300 pixels.
\<close>

definition three_frames :: "bool \<Rightarrow> int \<Rightarrow> nat props" where
  "three_frames lp sf =
     \<lparr>draggable = True, swipeable = True, isVertical = False, frameBoundary = 0.25,
      startFrame = sf, loop = lp, clonesCount = 2, onFrameUpdate = True,
      children = [0, 1, 2]\<rparr>"

definition mounted :: "bool \<Rightarrow> int \<Rightarrow> nat component" where
  "mounted lp sf = componentDidMount (constructor (three_frames lp sf)) 300"

text \<open>
  Notions the statements below use. \<open>position\<close> is the offset the container's transform
  holds, if one was written. \<open>closure s index\<close> is the completion callback that
  \<open>goToFrame\<close> builds for \<open>index\<close> in the state \<open>s\<close>. \<open>settles_directly\<close> holds of an index
  that \<open>goToFrame\<close>
  accepts and whose completion does not land on a clone. The event names are instance
  fields that only the constructor assigns; \<open>event_names\<close> says that they still hold
  what the constructor gave them. \<open>gesture\<close> builds a horizontal Hammer input, and
  \<open>unobserved\<close> is the three-frame component without looping and without an
  \<open>onFrameUpdate\<close> listener, started and mounted at frame 1.
\<close>

definition position :: "'a component \<Rightarrow> real option" where
  "position s = (if moved s = [] then None else Some (last (moved s)))"

definition closure :: "'a component \<Rightarrow> int \<Rightarrow> completion" where
  "closure s index =
     \<lparr>c_index = index, c_framesCount = framesCount s, c_loop = loop (props s),
      c_onFrameUpdate = onFrameUpdate (props s)\<rparr>"

definition event_names :: "'a component \<Rightarrow> bool" where
  "event_names s \<longleftrightarrow>
     SWIPE_PREV s = SWIPE_PREV (constructor (props s))
     \<and> SWIPE_NEXT s = SWIPE_NEXT (constructor (props s))
     \<and> PAN_PREV s = PAN_PREV (constructor (props s))
     \<and> PAN_NEXT s = PAN_NEXT (constructor (props s))
     \<and> PAN_START s = PAN_START (constructor (props s))
     \<and> PAN_END s = PAN_END (constructor (props s))
     \<and> PAN_CANCEL s = PAN_CANCEL (constructor (props s))"

definition settles_directly :: "'a component \<Rightarrow> int \<Rightarrow> bool" where
  "settles_directly s index \<longleftrightarrow>
     \<not> (framesCount s = 0 \<or> index < 0 \<or> index > framesCount s)
     \<and> \<not> (loop (props s) \<and> (index < getClonesCount s
                              \<or> index > (framesCount s - 1) - getClonesCount s))"

definition gesture :: "string \<Rightarrow> real \<Rightarrow> string \<Rightarrow> hammer_input" where
  "gesture ty d src = \<lparr>e_type = ty, deltaX = d, deltaY = 0, srcEvent_type = src\<rparr>"

definition unobserved :: "nat component" where
  "unobserved = componentDidMount (constructor ((three_frames False 1)\<lparr>onFrameUpdate := False\<rparr>)) 300"

section \<open>Basic facts about the navigation functions\<close>

declare goToFrame.simps [simp del]
declare moveContainerBy.simps [simp del]
declare goToFrame_done.simps [simp del]

lemma framesCount_props: "props s = props s' \<Longrightarrow> framesCount s = framesCount s'"
  by (simp add: framesCount_eq getClonesCount_def)

lemma getClonesCount_fields [simp]:
  "getClonesCount (s\<lparr>moving := b\<rparr>) = getClonesCount s"
  "getClonesCount (s\<lparr>timers := ts\<rparr>) = getClonesCount s"
  "getClonesCount (s\<lparr>activeIndex := a\<rparr>) = getClonesCount s"
  "getClonesCount (s\<lparr>notified := ns\<rparr>) = getClonesCount s"
  "getClonesCount (s\<lparr>frameSize := m\<rparr>) = getClonesCount s"
  "getClonesCount (s\<lparr>stopped := b\<rparr>) = getClonesCount s"
  by (simp_all add: getClonesCount_def)

lemma framesCount_fields [simp]:
  "framesCount (s\<lparr>moving := b\<rparr>) = framesCount s"
  "framesCount (s\<lparr>timers := ts\<rparr>) = framesCount s"
  "framesCount (s\<lparr>activeIndex := a\<rparr>) = framesCount s"
  "framesCount (s\<lparr>notified := ns\<rparr>) = framesCount s"
  "framesCount (s\<lparr>frameSize := m\<rparr>) = framesCount s"
  "framesCount (s\<lparr>stopped := b\<rparr>) = framesCount s"
  by (rule framesCount_props, simp)+

lemma goToFrame_rejected:
  "framesCount s = 0 \<or> index < 0 \<or> index > framesCount s \<Longrightarrow> goToFrame s index animate = s"
  by (simp add: goToFrame.simps)

lemma goToFrame_animated:
  "\<not> (framesCount s = 0 \<or> index < 0 \<or> index > framesCount s) \<Longrightarrow>
   goToFrame s index True =
     s\<lparr>moved := moved s @ [- real_of_int index * frameSize s], moving := True,
       timers := timers s @ [Some \<lparr>c_index = index, c_framesCount = framesCount s,
                                 c_loop = loop (props s),
                                 c_onFrameUpdate = onFrameUpdate (props s)\<rparr>]\<rparr>"
  by (simp add: goToFrame.simps moveContainerBy.simps)

lemma goToFrame_immediate:
  "\<not> (framesCount s = 0 \<or> index < 0 \<or> index > framesCount s) \<Longrightarrow>
   goToFrame s index False =
     goToFrame_done (s\<lparr>moved := moved s @ [- real_of_int index * frameSize s]\<rparr>)
       \<lparr>c_index = index, c_framesCount = framesCount s, c_loop = loop (props s),
        c_onFrameUpdate = onFrameUpdate (props s)\<rparr>"
  by (simp add: goToFrame.simps moveContainerBy.simps)

lemma goToFrame_done_final:
  "\<not> (c_loop d \<and> (c_index d < getClonesCount s
                    \<or> c_index d > (c_framesCount d - 1) - getClonesCount s)) \<Longrightarrow>
   goToFrame_done s d =
     (if c_onFrameUpdate d
      then s\<lparr>activeIndex := c_index d,
             notified := notified s @ [toPublic (c_loop d) (getClonesCount s) (c_index d)]\<rparr>
      else s\<lparr>activeIndex := c_index d\<rparr>)"
  by (subst goToFrame_done.simps) auto

lemma goToFrame_done_jump:
  "c_loop d \<and> (c_index d < getClonesCount s
                \<or> c_index d > (c_framesCount d - 1) - getClonesCount s) \<Longrightarrow>
   goToFrame_done s d =
     goToFrame s (if activeIndex s \<le> c_index d then getClonesCount s
                  else (c_framesCount d - 1) - getClonesCount s) False"
  by (subst goToFrame_done.simps) simp

lemma props_kept:
  "props (goToFrame s index animate) = props s"
  "props (moveContainerBy s pixels animate dn) = props s"
  "props (goToFrame_done s d) = props s"
proof (induction s index animate and s pixels animate dn and s d
       rule: goToFrame_moveContainerBy_goToFrame_done.induct)
  case (1 s index animate)
  then show ?case
    by (subst goToFrame.simps) auto
next
  case (2 s pixels animate dn)
  then show ?case
    by (subst moveContainerBy.simps) (auto split: option.splits)
next
  case (3 s d)
  then show ?case
    by (subst goToFrame_done.simps) auto
qed


lemma props_mounted: "props (mounted lp sf) = three_frames lp sf"
  by (simp add: mounted_def componentDidMount_def init_def props_kept constructor_def)

lemma framesCount_mounted: "framesCount (mounted lp sf) = (if lp then 7 else 3)"
  by (simp add: framesCount_eq getClonesCount_def props_mounted three_frames_def)

lemma toPublic_toInternal: "toPublic (loop (props s)) (getClonesCount s) (toInternal s i) = i"
  by (simp add: toPublic_def toInternal_def)

lemma goToFrame_immediate_settles:
  assumes "settles_directly s index"
  shows "goToFrame s index False =
           (if onFrameUpdate (props s)
            then s\<lparr>moved := moved s @ [- real_of_int index * frameSize s],
                   activeIndex := index,
                   notified := notified s @ [toPublic (loop (props s)) (getClonesCount s) index]\<rparr>
            else s\<lparr>moved := moved s @ [- real_of_int index * frameSize s],
                   activeIndex := index\<rparr>)"
  using assms
  by (simp add: settles_directly_def goToFrame_immediate goToFrame_done_final)

lemma goToFrame_animated_settles:
  assumes "settles_directly s index"
  shows "runTimer (goToFrame s index True) (length (timers s)) =
           (if onFrameUpdate (props s)
            then s\<lparr>moved := moved s @ [- real_of_int index * frameSize s],
                   moving := False, activeIndex := index,
                   notified := notified s @ [toPublic (loop (props s)) (getClonesCount s) index]\<rparr>
            else s\<lparr>moved := moved s @ [- real_of_int index * frameSize s],
                   moving := False, activeIndex := index\<rparr>)"
  using assms
  by (simp add: settles_directly_def goToFrame_animated runTimer_def goToFrame_done_final getClonesCount_def)

lemma settles_directly_frameSize [simp]:
  "settles_directly (s\<lparr>frameSize := m\<rparr>) index = settles_directly s index"
  by (simp add: settles_directly_def framesCount_eq getClonesCount_def)

lemma completion_runs:
  assumes "k < length (timers t)" and "timers t ! k = Some c"
    and "\<not> (c_loop c \<and> (c_index c < getClonesCount t
                        \<or> c_index c > (c_framesCount c - 1) - getClonesCount t))"
  shows "runTimer t k =
           (if c_onFrameUpdate c
            then t\<lparr>timers := take k (timers t) @ drop (Suc k) (timers t), moving := False,
                   activeIndex := c_index c,
                   notified := notified t @ [toPublic (c_loop c) (getClonesCount t) (c_index c)]\<rparr>
            else t\<lparr>timers := take k (timers t) @ drop (Suc k) (timers t), moving := False,
                   activeIndex := c_index c\<rparr>)"
  using assms by (simp add: runTimer_def goToFrame_done_final)

lemma pointercancel_ignored: "srcEvent_type e = ''pointercancel'' \<Longrightarrow> onEvents s e = s"
  by (simp add: onEvents_def)

lemma goToFrame_schedules:
  assumes "settles_directly s index"
  shows "goToFrame s index True =
           s\<lparr>moved := moved s @ [- real_of_int index * frameSize s], moving := True,
             timers := timers s @ [Some (closure s index)]\<rparr>"
  using assms by (simp add: settles_directly_def goToFrame_animated closure_def)

lemma closure_completes:
  assumes "settles_directly s index" and "props t = props s"
    and "k < length (timers t)" and "timers t ! k = Some (closure s index)"
  shows "activeIndex (runTimer t k) = index
         \<and> notified (runTimer t k)
             = (if onFrameUpdate (props s)
                then notified t @ [toPublic (loop (props s)) (getClonesCount s) index]
                else notified t)
         \<and> moved (runTimer t k) = moved t"
proof -
  have gc: "getClonesCount t = getClonesCount s"
    using assms(2) by (simp add: getClonesCount_def)
  have off: "\<not> (c_loop (closure s index)
               \<and> (c_index (closure s index) < getClonesCount t
                   \<or> c_index (closure s index)
                       > (c_framesCount (closure s index) - 1) - getClonesCount t))"
    using assms(1) by (simp add: settles_directly_def closure_def gc)
  show ?thesis
    unfolding completion_runs[OF assms(3,4) off] by (simp add: closure_def gc)
qed

lemma moved_extends:
  "\<exists>rest. moved (goToFrame s index animate) = moved s @ rest"
  "\<exists>rest. moved (moveContainerBy s pixels animate dn) = moved s @ [pixels] @ rest"
  "\<exists>rest. moved (goToFrame_done s d) = moved s @ rest"
proof (induction s index animate and s pixels animate dn and s d
       rule: goToFrame_moveContainerBy_goToFrame_done.induct)
  case (1 s index animate)
  then show ?case
    by (subst goToFrame.simps) auto
next
  case (2 s pixels animate dn)
  then show ?case
    by (subst moveContainerBy.simps) (auto split: option.splits)
next
  case (3 s d)
  then show ?case
    by (subst goToFrame_done.simps) auto
qed

lemma event_names_constructor: "event_names (constructor p)"
  by (simp add: event_names_def constructor_def)

lemma names_kept:
  "SWIPE_PREV (goToFrame s index animate) = SWIPE_PREV s \<and> SWIPE_NEXT (goToFrame s index animate) = SWIPE_NEXT s
   \<and> PAN_PREV (goToFrame s index animate) = PAN_PREV s \<and> PAN_NEXT (goToFrame s index animate) = PAN_NEXT s
   \<and> PAN_START (goToFrame s index animate) = PAN_START s \<and> PAN_END (goToFrame s index animate) = PAN_END s
   \<and> PAN_CANCEL (goToFrame s index animate) = PAN_CANCEL s"
  "SWIPE_PREV (moveContainerBy s pixels animate dn) = SWIPE_PREV s \<and> SWIPE_NEXT (moveContainerBy s pixels animate dn) = SWIPE_NEXT s
   \<and> PAN_PREV (moveContainerBy s pixels animate dn) = PAN_PREV s \<and> PAN_NEXT (moveContainerBy s pixels animate dn) = PAN_NEXT s
   \<and> PAN_START (moveContainerBy s pixels animate dn) = PAN_START s \<and> PAN_END (moveContainerBy s pixels animate dn) = PAN_END s
   \<and> PAN_CANCEL (moveContainerBy s pixels animate dn) = PAN_CANCEL s"
  "SWIPE_PREV (goToFrame_done s d) = SWIPE_PREV s \<and> SWIPE_NEXT (goToFrame_done s d) = SWIPE_NEXT s
   \<and> PAN_PREV (goToFrame_done s d) = PAN_PREV s \<and> PAN_NEXT (goToFrame_done s d) = PAN_NEXT s
   \<and> PAN_START (goToFrame_done s d) = PAN_START s \<and> PAN_END (goToFrame_done s d) = PAN_END s
   \<and> PAN_CANCEL (goToFrame_done s d) = PAN_CANCEL s"
proof (induction s index animate and s pixels animate dn and s d
       rule: goToFrame_moveContainerBy_goToFrame_done.induct)
  case (1 s index animate)
  then show ?case
    by (subst (1 2 3 4 5 6 7) goToFrame.simps) auto
next
  case (2 s pixels animate dn)
  then show ?case
    by (subst (1 2 3 4 5 6 7) moveContainerBy.simps) (auto split: option.splits)
next
  case (3 s d)
  then show ?case
    by (subst (1 2 3 4 5 6 7) goToFrame_done.simps) auto
qed

lemma event_names_mounted: "event_names (mounted lp sf)"
  by (simp add: event_names_def mounted_def componentDidMount_def init_def names_kept props_kept)
     (simp add: constructor_def)

lemma mounted_False_1:
  "mounted False 1 =
     (constructor (three_frames False 1))\<lparr>frameSize := 300, moved := [- 300], notified := [1]\<rparr>"
  by code_simp

lemma mounted_False_1_fields:
  "frameSize (mounted False 1) = 300" "activeIndex (mounted False 1) = 1"
  "timers (mounted False 1) = []" "moved (mounted False 1) = [- 300]"
  "notified (mounted False 1) = [1]" "stopped (mounted False 1) = False"
  "PAN_PREV (mounted False 1) = ''panleft''" "PAN_NEXT (mounted False 1) = ''panright''"
  "PAN_END (mounted False 1) = ''panend''" "PAN_CANCEL (mounted False 1) = ''pancancel''"
  by (simp_all add: mounted_False_1) (simp_all add: constructor_def three_frames_def)

lemma axis_delta_mounted: "axis_delta (mounted lp sf) (gesture ty d src) = d"
  by (simp add: axis_delta_def props_mounted three_frames_def gesture_def)

lemma mounted_False_0_fields:
  "frameSize (mounted False 0) = 300" "activeIndex (mounted False 0) = 0"
  "timers (mounted False 0) = []" "moved (mounted False 0) = [0]"
  "notified (mounted False 0) = [0]" "stopped (mounted False 0) = False"
  by code_simp+

lemma names_mounted:
  "PAN_PREV (mounted lp sf) = ''panleft''" "PAN_NEXT (mounted lp sf) = ''panright''"
  "PAN_END (mounted lp sf) = ''panend''" "PAN_CANCEL (mounted lp sf) = ''pancancel''"
  using event_names_mounted[of lp sf]
  by (simp_all add: event_names_def constructor_def props_mounted three_frames_def)

lemma settles_directly_mounted:
  "settles_directly (mounted False sf) index \<longleftrightarrow> 0 \<le> index \<and> index \<le> 3"
  by (auto simp: settles_directly_def framesCount_mounted props_mounted three_frames_def)

section \<open>The guard of goToFrame\<close>

text \<open>
  C6 (amended). \<open>goToFrame\<close> is a silent no-op, leaving the whole component as it was,
  if there are no frames, or the index is negative, or the index is greater than the
  number of frames. Every other index, in particular the number of frames itself (one
  past the last slot), is accepted: the call first writes the container position
  \<open>- index * frameSize\<close>; animated, it sets the transition class and leaves its completion
  pending; unanimated and off a clone, it sets \<open>activeIndex\<close> to the index and calls
  \<open>onFrameUpdate\<close>, if supplied, with its public index. The converse of the first part
  does not hold: an accepted call can leave position, active index and notifications
  as they were.
\<close>

theorem goToFrame_guard:
  "(framesCount s = 0 \<or> index < 0 \<or> index > framesCount s \<longrightarrow> goToFrame s index animate = s)
   \<and> (\<not> (framesCount s = 0 \<or> index < 0 \<or> index > framesCount s) \<longrightarrow>
        (\<exists>rest. moved (goToFrame s index animate)
                  = moved s @ [- real_of_int index * frameSize s] @ rest)
        \<and> goToFrame s index True
            = s\<lparr>moved := moved s @ [- real_of_int index * frameSize s], moving := True,
                timers := timers s @ [Some \<lparr>c_index = index, c_framesCount = framesCount s,
                                          c_loop = loop (props s),
                                          c_onFrameUpdate = onFrameUpdate (props s)\<rparr>]\<rparr>
        \<and> (settles_directly s index \<longrightarrow>
             goToFrame s index False
               = (if onFrameUpdate (props s)
                  then s\<lparr>moved := moved s @ [- real_of_int index * frameSize s],
                         activeIndex := index,
                         notified := notified s
                           @ [toPublic (loop (props s)) (getClonesCount s) index]\<rparr>
                  else s\<lparr>moved := moved s @ [- real_of_int index * frameSize s],
                         activeIndex := index\<rparr>)))
   \<and> (framesCount s \<noteq> 0 \<and> \<not> loop (props s) \<longrightarrow>
        activeIndex (goToFrame s (framesCount s) False) = framesCount s
        \<and> position (goToFrame s (framesCount s) False)
            = Some (- real_of_int (framesCount s) * frameSize s))"
proof -
  have rej: "framesCount s = 0 \<or> index < 0 \<or> index > framesCount s \<longrightarrow>
             goToFrame s index animate = s"
    by (simp add: goToFrame_rejected)
  have acc: "\<not> (framesCount s = 0 \<or> index < 0 \<or> index > framesCount s) \<longrightarrow>
        (\<exists>rest. moved (goToFrame s index animate)
                  = moved s @ [- real_of_int index * frameSize s] @ rest)
        \<and> goToFrame s index True
            = s\<lparr>moved := moved s @ [- real_of_int index * frameSize s], moving := True,
                timers := timers s @ [Some \<lparr>c_index = index, c_framesCount = framesCount s,
                                          c_loop = loop (props s),
                                          c_onFrameUpdate = onFrameUpdate (props s)\<rparr>]\<rparr>
        \<and> (settles_directly s index \<longrightarrow>
             goToFrame s index False
               = (if onFrameUpdate (props s)
                  then s\<lparr>moved := moved s @ [- real_of_int index * frameSize s],
                         activeIndex := index,
                         notified := notified s
                           @ [toPublic (loop (props s)) (getClonesCount s) index]\<rparr>
                  else s\<lparr>moved := moved s @ [- real_of_int index * frameSize s],
                         activeIndex := index\<rparr>))"
  proof (intro impI conjI)
    assume a: "\<not> (framesCount s = 0 \<or> index < 0 \<or> index > framesCount s)"
    have "goToFrame s index animate = moveContainerBy s (- real_of_int index * frameSize s) animate
            (Some \<lparr>c_index = index, c_framesCount = framesCount s, c_loop = loop (props s),
                   c_onFrameUpdate = onFrameUpdate (props s)\<rparr>)"
      using a by (subst goToFrame.simps) simp
    then show "\<exists>rest. moved (goToFrame s index animate)
                  = moved s @ [- real_of_int index * frameSize s] @ rest"
      using moved_extends(2) by simp
    show "goToFrame s index True
            = s\<lparr>moved := moved s @ [- real_of_int index * frameSize s], moving := True,
                timers := timers s @ [Some \<lparr>c_index = index, c_framesCount = framesCount s,
                                          c_loop = loop (props s),
                                          c_onFrameUpdate = onFrameUpdate (props s)\<rparr>]\<rparr>"
      using a by (rule goToFrame_animated)
  next
    assume "settles_directly s index"
    then show "goToFrame s index False
               = (if onFrameUpdate (props s)
                  then s\<lparr>moved := moved s @ [- real_of_int index * frameSize s],
                         activeIndex := index,
                         notified := notified s
                           @ [toPublic (loop (props s)) (getClonesCount s) index]\<rparr>
                  else s\<lparr>moved := moved s @ [- real_of_int index * frameSize s],
                         activeIndex := index\<rparr>)"
      by (rule goToFrame_immediate_settles)
  qed
  have past: "framesCount s \<noteq> 0 \<and> \<not> loop (props s) \<longrightarrow>
        activeIndex (goToFrame s (framesCount s) False) = framesCount s
        \<and> position (goToFrame s (framesCount s) False)
            = Some (- real_of_int (framesCount s) * frameSize s)"
  proof (intro impI, elim conjE)
    assume h: "framesCount s \<noteq> 0" "\<not> loop (props s)"
    have "0 \<le> framesCount s" by (simp add: framesCount_def)
    with h have "settles_directly s (framesCount s)"
      by (simp add: settles_directly_def)
    from goToFrame_immediate_settles[OF this]
    show "activeIndex (goToFrame s (framesCount s) False) = framesCount s
        \<and> position (goToFrame s (framesCount s) False)
            = Some (- real_of_int (framesCount s) * frameSize s)"
      by (simp add: position_def)
  qed
  show ?thesis
    by (intro conjI) (rule rej acc past)+
qed

theorem goToFrame_guard_witness:
  "framesCount (mounted False 0) = 3
   \<and> goToFrame (mounted False 0) 4 True = mounted False 0
   \<and> goToFrame (mounted False 0) (- 1) False = mounted False 0
   \<and> timers (goToFrame (mounted False 0) 3 True)
       = [Some \<lparr>c_index = 3, c_framesCount = 3, c_loop = False, c_onFrameUpdate = True\<rparr>]
   \<and> moved (goToFrame (mounted False 0) 3 True) = [0, - 900]
   \<and> activeIndex (goToFrame (mounted False 0) 2 False) = 2
   \<and> notified (goToFrame (mounted False 0) 2 False) = [0, 2]
   \<and> activeIndex (goToFrame (mounted False 0) 3 False) = 3
   \<and> position (goToFrame (mounted False 0) 3 False) = Some (- 900)"
proof -
  have p: "onFrameUpdate (props (mounted False 0))" "\<not> loop (props (mounted False 0))"
    by (simp_all add: props_mounted three_frames_def)
  have c: "getClonesCount (mounted False 0) = 2"
    by (simp add: getClonesCount_def props_mounted three_frames_def)
  note f = framesCount_mounted mounted_False_0_fields
  have r1: "goToFrame (mounted False 0) 4 True = mounted False 0"
    using goToFrame_guard[of "mounted False 0" 4 True, THEN conjunct1] by (simp add: f)
  have r2: "goToFrame (mounted False 0) (- 1) False = mounted False 0"
    using goToFrame_guard[of "mounted False 0" "- 1" False, THEN conjunct1] by (simp add: f)
  have a3: "goToFrame (mounted False 0) 3 True
             = (mounted False 0)\<lparr>moved := [0, - 900], moving := True,
                 timers := [Some \<lparr>c_index = 3, c_framesCount = 3, c_loop = False,
                                  c_onFrameUpdate = True\<rparr>]\<rparr>"
    using goToFrame_guard[of "mounted False 0" 3 True, THEN conjunct2, THEN conjunct1]
    by (simp add: f p)
  have s2: "goToFrame (mounted False 0) 2 False
             = (mounted False 0)\<lparr>moved := [0, - 600], activeIndex := 2, notified := [0, 2]\<rparr>"
    using goToFrame_guard[of "mounted False 0" 2 False, THEN conjunct2, THEN conjunct1]
    by (simp add: f p settles_directly_mounted toPublic_def)
  have s3: "activeIndex (goToFrame (mounted False 0) 3 False) = 3
            \<and> position (goToFrame (mounted False 0) 3 False) = Some (- 900)"
    using goToFrame_guard[of "mounted False 0" 3 False, THEN conjunct2, THEN conjunct2]
    by (simp add: f p)
  show ?thesis
    unfolding r1 r2 a3 s2 using s3 by (simp add: f)
qed

text \<open>
  Three frames without looping and without an \<open>onFrameUpdate\<close> listener, settled on
  index 1 at offset \<open>- 300\<close>: \<open>goToFrame 1\<close>, unanimated, passes the guard, and yet
  position, active index, notifications and pending timeouts are what they were. Only
  the transform was written once more, with the value it had.
\<close>

theorem accepted_goToFrame_changes_nothing:
  "framesCount unobserved = 3
   \<and> activeIndex unobserved = 1
   \<and> position unobserved = Some (- 300)
   \<and> goToFrame unobserved 1 False = unobserved\<lparr>moved := [- 300, - 300]\<rparr>
   \<and> position (goToFrame unobserved 1 False) = position unobserved
   \<and> activeIndex (goToFrame unobserved 1 False) = activeIndex unobserved
   \<and> notified (goToFrame unobserved 1 False) = notified unobserved
   \<and> timers (goToFrame unobserved 1 False) = timers unobserved
   \<and> moving (goToFrame unobserved 1 False) = moving unobserved"
  by code_simp

section \<open>next and prev\<close>

text \<open>
  Invariants of a schedule without looping: every pending completion finalizes (it
  captured \<open>loop = false\<close>) at an index that is at most \<open>framesCount - 1\<close>, respectively
  at least 0.
\<close>

definition pending_below :: "'a component \<Rightarrow> bool" where
  "pending_below s \<longleftrightarrow>
     (\<forall>c. Some c \<in> set (timers s) \<longrightarrow> \<not> c_loop c \<and> c_index c \<le> framesCount s - 1)"

definition pending_above :: "'a component \<Rightarrow> bool" where
  "pending_above s \<longleftrightarrow>
     (\<forall>c. Some c \<in> set (timers s) \<longrightarrow> \<not> c_loop c \<and> 0 \<le> c_index c)"

lemma set_remove_nth: "set (take k xs @ drop (Suc k) xs) \<subseteq> set xs"
  using set_take_subset[of k xs] set_drop_subset[of "Suc k" xs] by auto

lemma go_below:
  assumes "\<not> loop (props s)" and "pending_below s" and "index \<le> framesCount s - 1"
  shows "pending_below (goToFrame s index True)
         \<and> props (goToFrame s index True) = props s
         \<and> activeIndex (goToFrame s index True) = activeIndex s"
proof (cases "framesCount s = 0 \<or> index < 0 \<or> index > framesCount s")
  case True
  then show ?thesis using assms by (simp add: goToFrame_rejected)
next
  case False
  then show ?thesis
    using assms
    by (auto simp: goToFrame_animated pending_below_def)
qed

lemma go_above:
  assumes "\<not> loop (props s)" and "pending_above s"
  shows "pending_above (goToFrame s index True)
         \<and> props (goToFrame s index True) = props s
         \<and> activeIndex (goToFrame s index True) = activeIndex s"
proof (cases "framesCount s = 0 \<or> index < 0 \<or> index > framesCount s")
  case True
  then show ?thesis using assms by (simp add: goToFrame_rejected)
next
  case False
  then show ?thesis
    using assms
    by (auto simp: goToFrame_animated pending_above_def)
qed

lemma fire_below:
  assumes "pending_below s" and "activeIndex s \<le> framesCount s - 1"
  shows "pending_below (runTimer s k) \<and> props (runTimer s k) = props s
         \<and> activeIndex (runTimer s k) \<le> framesCount s - 1"
proof (cases "k < length (timers s)")
  case False
  then show ?thesis using assms by (simp add: runTimer_def)
next
  case True
  let ?ts = "take k (timers s) @ drop (Suc k) (timers s)"
  have rest: "\<not> c_loop c \<and> c_index c \<le> framesCount s - 1" if "Some c \<in> set ?ts" for c
    using assms(1) that set_remove_nth[of k "timers s"]
    by (auto simp: pending_below_def)
  show ?thesis
  proof (cases "timers s ! k")
    case None
    then show ?thesis
      using True rest assms(2) by (simp add: runTimer_def pending_below_def)
  next
    case (Some c)
    have "Some c \<in> set (timers s)" using True Some nth_mem by metis
    then have c: "\<not> c_loop c" "c_index c \<le> framesCount s - 1"
      using assms(1) by (auto simp: pending_below_def)
    show ?thesis
      using True Some rest c
      by (simp add: runTimer_def goToFrame_done_final pending_below_def)
  qed
qed

lemma fire_above:
  assumes "pending_above s" and "0 \<le> activeIndex s"
  shows "pending_above (runTimer s k) \<and> props (runTimer s k) = props s
         \<and> 0 \<le> activeIndex (runTimer s k)"
proof (cases "k < length (timers s)")
  case False
  then show ?thesis using assms by (simp add: runTimer_def)
next
  case True
  let ?ts = "take k (timers s) @ drop (Suc k) (timers s)"
  have rest: "\<not> c_loop c \<and> 0 \<le> c_index c" if "Some c \<in> set ?ts" for c
    using assms(1) that set_remove_nth[of k "timers s"]
    by (auto simp: pending_above_def)
  show ?thesis
  proof (cases "timers s ! k")
    case None
    then show ?thesis
      using True rest assms(2) by (simp add: runTimer_def pending_above_def)
  next
    case (Some c)
    have "Some c \<in> set (timers s)" using True Some nth_mem by metis
    then have c: "\<not> c_loop c" "0 \<le> c_index c"
      using assms(1) by (auto simp: pending_above_def)
    show ?thesis
      using True Some rest c
      by (simp add: runTimer_def goToFrame_done_final pending_above_def)
  qed
qed

lemma step_below:
  assumes "\<not> loop (props s)" and "pending_below s" and "activeIndex s \<le> framesCount s - 1"
  shows "pending_below (perform s a) \<and> props (perform s a) = props s
         \<and> activeIndex (perform s a) \<le> framesCount s - 1"
proof (cases a)
  case Next
  have "getNextIndex s True \<le> framesCount s - 1" by (simp add: getNextIndex_def)
  from go_below[OF assms(1,2) this] assms(3) Next show ?thesis
    by (simp add: next_frame_def)
next
  case Prev
  show ?thesis
  proof (cases "framesCount s = 0")
    case True
    then show ?thesis using assms Prev by (simp add: prev_frame_def goToFrame_rejected)
  next
    case False
    moreover have "0 \<le> framesCount s" by (simp add: framesCount_def)
    ultimately have "1 \<le> framesCount s" by linarith
    then have "getNextIndex s False \<le> framesCount s - 1"
      using assms(3) by (simp add: getNextIndex_def)
    from go_below[OF assms(1,2) this] assms(3) Prev show ?thesis
      by (simp add: prev_frame_def)
  qed
next
  case (Fire k)
  with fire_below[OF assms(2,3)] show ?thesis by simp
qed

lemma step_above:
  assumes "\<not> loop (props s)" and "pending_above s" and "0 \<le> activeIndex s"
  shows "pending_above (perform s a) \<and> props (perform s a) = props s \<and> 0 \<le> activeIndex (perform s a)"
proof (cases a)
  case Next
  with go_above[OF assms(1,2), of "getNextIndex s True"] assms(3) show ?thesis
    by (simp add: next_frame_def)
next
  case Prev
  with go_above[OF assms(1,2), of "getNextIndex s False"] assms(3) show ?thesis
    by (simp add: prev_frame_def)
next
  case (Fire k)
  with fire_above[OF assms(2,3)] show ?thesis by simp
qed

lemma run_below:
  assumes "\<not> loop (props s)" and "pending_below s" and "activeIndex s \<le> framesCount s - 1"
  shows "activeIndex (run s as) \<le> framesCount s - 1"
  using assms
proof (induction as arbitrary: s)
  case Nil
  then show ?case by simp
next
  case (Cons a as)
  from step_below[OF Cons.prems, of a]
  have pb: "pending_below (perform s a)" and p: "props (perform s a) = props s"
    and ai: "activeIndex (perform s a) \<le> framesCount s - 1" by simp_all
  from p have fc: "framesCount (perform s a) = framesCount s" by (rule framesCount_props)
  from p Cons.prems(1) have nl: "\<not> loop (props (perform s a))" by simp
  from Cons.IH[OF nl pb] ai fc show ?case by simp
qed

lemma run_above:
  assumes "\<not> loop (props s)" and "pending_above s" and "0 \<le> activeIndex s"
  shows "0 \<le> activeIndex (run s as)"
  using assms
proof (induction as arbitrary: s)
  case Nil
  then show ?case by simp
next
  case (Cons a as)
  from step_above[OF Cons.prems, of a]
  have pa: "pending_above (perform s a)" and p: "props (perform s a) = props s"
    and ai: "0 \<le> activeIndex (perform s a)" by simp_all
  from p Cons.prems(1) have nl: "\<not> loop (props (perform s a))" by simp
  from Cons.IH[OF nl pa ai] show ?case by simp
qed

text \<open>
  C7. \<open>getNextIndex\<close> clamps and never wraps: \<open>next\<close> aims at
  \<open>min (activeIndex + 1) (framesCount - 1)\<close> and \<open>prev\<close> at \<open>max (activeIndex - 1) 0\<close>,
  whatever \<open>loop\<close> is. Hence without looping, starting with no transition pending, no
  schedule of \<open>next\<close> and \<open>prev\<close> calls and completing transitions takes the active index
  past \<open>framesCount - 1\<close> when it starts at or below it (so not from the last frame), nor
  below 0 when it starts at or above it (so not from index 0).
\<close>

theorem next_prev_clamp:
  "getNextIndex s True = min (activeIndex s + 1) (framesCount s - 1)
   \<and> getNextIndex s False = max (activeIndex s - 1) 0
   \<and> next_frame s = goToFrame s (min (activeIndex s + 1) (framesCount s - 1)) True
   \<and> prev_frame s = goToFrame s (max (activeIndex s - 1) 0) True
   \<and> (\<not> loop (props s) \<and> timers s = [] \<and> activeIndex s \<le> framesCount s - 1 \<longrightarrow>
        activeIndex (run s as) \<le> framesCount s - 1)
   \<and> (\<not> loop (props s) \<and> timers s = [] \<and> 0 \<le> activeIndex s \<longrightarrow>
        0 \<le> activeIndex (run s as))"
proof -
  have "pending_below s" "pending_above s" if "timers s = []"
    using that by (simp_all add: pending_below_def pending_above_def)
  then show ?thesis
    using run_below[of s as] run_above[of s as]
    by (simp add: getNextIndex_def next_frame_def prev_frame_def)
qed

theorem next_prev_clamp_witness:
  "activeIndex (mounted False 2) = framesCount (mounted False 2) - 1
   \<and> activeIndex (run (mounted False 2) [Next, Next, Fire 0, Next, Fire 1, Fire 0]) \<le> 2
   \<and> activeIndex (mounted False 0) = 0
   \<and> 0 \<le> activeIndex (run (mounted False 0) [Prev, Fire 0, Prev, Prev, Fire 1, Fire 0])"
proof -
  have nl: "\<not> loop (props (mounted False sf))" for sf
    by (simp add: props_mounted three_frames_def)
  have tm2: "timers (mounted False 2) = []" and a2: "activeIndex (mounted False 2) = 2"
    by code_simp+
  have tm0: "timers (mounted False 0) = []" and a0: "activeIndex (mounted False 0) = 0"
    by code_simp+
  show ?thesis
    using next_prev_clamp[of "mounted False 2" "[Next, Next, Fire 0, Next, Fire 1, Fire 0]",
            THEN conjunct2, THEN conjunct2, THEN conjunct2, THEN conjunct2]
          next_prev_clamp[of "mounted False 0" "[Prev, Fire 0, Prev, Prev, Fire 1, Fire 0]",
            THEN conjunct2, THEN conjunct2, THEN conjunct2, THEN conjunct2]
      nl tm2 a2 tm0 a0
    by (simp add: framesCount_mounted)
qed

section \<open>Gestures\<close>

text \<open>
  The handler looks at the source event first: an event that stems from a
  \<open>pointercancel\<close> is discarded whatever its type (lemma \<open>pointercancel_ignored\<close>). The
  statements of this section are about the events that pass this test.
\<close>

text \<open>
  C5 (amended). For every pan-end or pan-cancel event that reaches the handler's
  switch (a pointer-cancel sub-event is discarded before it), with delta \<open>d\<close> along the
  active axis: if \<open>\<bar>d\<bar> > frameSize * frameBoundary\<close> the handler commits, by an
  animated call of \<open>goToFrame\<close>, a move to the neighbouring index in \<open>d\<close>'s direction,
  clamped to
  \<open>[0, framesCount - 1]\<close>: to \<open>max (activeIndex - 1) 0\<close> when \<open>d > 0\<close> and to
  \<open>min (activeIndex + 1) (framesCount - 1)\<close> otherwise. That target is exactly one step
  in \<open>d\<close>'s direction whenever that neighbour lies in \<open>[0, framesCount - 1]\<close>, and off a
  clone the completion of the move, whenever it runs, makes it the active index; when
  the active index is at that end (0 for \<open>d > 0\<close>, \<open>framesCount - 1\<close> otherwise) the move
  re-targets the unchanged active index just as the snap back does. Otherwise the
  handler re-targets the unchanged active index (animated snap back). With
  \<open>frameSize = 300\<close> and \<open>frameBoundary = 0.25\<close>, \<open>\<bar>d\<bar> = 74\<close> snaps back and \<open>\<bar>d\<bar> = 76\<close>
  commits.
\<close>

theorem pan_end_commits_clamped_move:
  assumes "event_names s"
    and "srcEvent_type e \<noteq> ''pointercancel''"
    and "e_type e = PAN_END s \<or> e_type e = PAN_CANCEL s"
  shows "onEvents s e =
           goToFrame s
             (if \<bar>axis_delta s e\<bar> > frameSize s * frameBoundary (props s)
              then (if axis_delta s e > 0 then max (activeIndex s - 1) 0
                    else min (activeIndex s + 1) (framesCount s - 1))
              else activeIndex s) True
         \<and> (\<bar>axis_delta s e\<bar> > frameSize s * frameBoundary (props s) \<and> axis_delta s e > 0
              \<and> 1 \<le> activeIndex s \<and> settles_directly s (activeIndex s - 1) \<longrightarrow>
              onEvents s e =
                s\<lparr>moved := moved s @ [- real_of_int (activeIndex s - 1) * frameSize s],
                  moving := True,
                  timers := timers s @ [Some (closure s (activeIndex s - 1))]\<rparr>
              \<and> (props t = props s \<and> k < length (timers t)
                   \<and> timers t ! k = Some (closure s (activeIndex s - 1)) \<longrightarrow>
                   activeIndex (runTimer t k) = activeIndex s - 1
                   \<and> notified (runTimer t k)
                       = (if onFrameUpdate (props s)
                          then notified t
                               @ [toPublic (loop (props s)) (getClonesCount s) (activeIndex s - 1)]
                          else notified t)))
         \<and> (\<bar>axis_delta s e\<bar> > frameSize s * frameBoundary (props s) \<and> \<not> axis_delta s e > 0
              \<and> activeIndex s \<le> framesCount s - 2 \<and> settles_directly s (activeIndex s + 1) \<longrightarrow>
              onEvents s e =
                s\<lparr>moved := moved s @ [- real_of_int (activeIndex s + 1) * frameSize s],
                  moving := True,
                  timers := timers s @ [Some (closure s (activeIndex s + 1))]\<rparr>
              \<and> (props t = props s \<and> k < length (timers t)
                   \<and> timers t ! k = Some (closure s (activeIndex s + 1)) \<longrightarrow>
                   activeIndex (runTimer t k) = activeIndex s + 1
                   \<and> notified (runTimer t k)
                       = (if onFrameUpdate (props s)
                          then notified t
                               @ [toPublic (loop (props s)) (getClonesCount s) (activeIndex s + 1)]
                          else notified t)))
         \<and> (\<bar>axis_delta s e\<bar> > frameSize s * frameBoundary (props s)
              \<and> (if axis_delta s e > 0 then activeIndex s = 0
                  else activeIndex s = framesCount s - 1) \<longrightarrow>
              onEvents s e = goToFrame s (activeIndex s) True)
         \<and> (frameSize s = 300 \<and> frameBoundary (props s) = 0.25 \<and> \<bar>axis_delta s e\<bar> = 74 \<longrightarrow>
              onEvents s e = goToFrame s (activeIndex s) True)
         \<and> (frameSize s = 300 \<and> frameBoundary (props s) = 0.25 \<and> \<bar>axis_delta s e\<bar> = 76 \<longrightarrow>
              onEvents s e =
                goToFrame s (if axis_delta s e > 0 then max (activeIndex s - 1) 0
                             else min (activeIndex s + 1) (framesCount s - 1)) True)"
proof -
  let ?d = "axis_delta s e"
  let ?big = "\<bar>?d\<bar> > frameSize s * frameBoundary (props s)"
  have names: "e_type e \<noteq> PAN_PREV s" "e_type e \<noteq> PAN_NEXT s"
      "e_type e \<noteq> SWIPE_PREV s" "e_type e \<noteq> SWIPE_NEXT s"
    using assms(1,3) by (auto simp: event_names_def constructor_def split: if_splits)
  have main: "onEvents s e =
           goToFrame s
             (if ?big
              then (if ?d > 0 then max (activeIndex s - 1) 0
                    else min (activeIndex s + 1) (framesCount s - 1))
              else activeIndex s) True"
    using names assms(2,3)
    by (simp add: onEvents_def Let_def prev_frame_def next_frame_def getNextIndex_def)
  have step: "onEvents s e =
                s\<lparr>moved := moved s @ [- real_of_int i * frameSize s], moving := True,
                  timers := timers s @ [Some (closure s i)]\<rparr>
              \<and> (props t = props s \<and> k < length (timers t)
                   \<and> timers t ! k = Some (closure s i) \<longrightarrow>
                   activeIndex (runTimer t k) = i
                   \<and> notified (runTimer t k)
                       = (if onFrameUpdate (props s)
                          then notified t @ [toPublic (loop (props s)) (getClonesCount s) i]
                          else notified t))"
    if "onEvents s e = goToFrame s i True" "settles_directly s i" for i
    using that(1) goToFrame_schedules[OF that(2)] closure_completes[OF that(2), of t k]
    by simp
  have c2: "?big \<and> ?d > 0 \<and> 1 \<le> activeIndex s \<and> settles_directly s (activeIndex s - 1) \<longrightarrow>
              onEvents s e =
                s\<lparr>moved := moved s @ [- real_of_int (activeIndex s - 1) * frameSize s],
                  moving := True,
                  timers := timers s @ [Some (closure s (activeIndex s - 1))]\<rparr>
              \<and> (props t = props s \<and> k < length (timers t)
                   \<and> timers t ! k = Some (closure s (activeIndex s - 1)) \<longrightarrow>
                   activeIndex (runTimer t k) = activeIndex s - 1
                   \<and> notified (runTimer t k)
                       = (if onFrameUpdate (props s)
                          then notified t
                               @ [toPublic (loop (props s)) (getClonesCount s) (activeIndex s - 1)]
                          else notified t))"
  proof (intro impI, elim conjE)
    assume h: "?big" "?d > 0" "1 \<le> activeIndex s" "settles_directly s (activeIndex s - 1)"
    have "onEvents s e = goToFrame s (activeIndex s - 1) True"
      using h(1,2,3) by (simp add: main max_def)
    from step[OF this h(4)] show
      "onEvents s e =
                s\<lparr>moved := moved s @ [- real_of_int (activeIndex s - 1) * frameSize s],
                  moving := True,
                  timers := timers s @ [Some (closure s (activeIndex s - 1))]\<rparr>
              \<and> (props t = props s \<and> k < length (timers t)
                   \<and> timers t ! k = Some (closure s (activeIndex s - 1)) \<longrightarrow>
                   activeIndex (runTimer t k) = activeIndex s - 1
                   \<and> notified (runTimer t k)
                       = (if onFrameUpdate (props s)
                          then notified t
                               @ [toPublic (loop (props s)) (getClonesCount s) (activeIndex s - 1)]
                          else notified t))" .
  qed
  have c3: "?big \<and> \<not> ?d > 0 \<and> activeIndex s \<le> framesCount s - 2
              \<and> settles_directly s (activeIndex s + 1) \<longrightarrow>
              onEvents s e =
                s\<lparr>moved := moved s @ [- real_of_int (activeIndex s + 1) * frameSize s],
                  moving := True,
                  timers := timers s @ [Some (closure s (activeIndex s + 1))]\<rparr>
              \<and> (props t = props s \<and> k < length (timers t)
                   \<and> timers t ! k = Some (closure s (activeIndex s + 1)) \<longrightarrow>
                   activeIndex (runTimer t k) = activeIndex s + 1
                   \<and> notified (runTimer t k)
                       = (if onFrameUpdate (props s)
                          then notified t
                               @ [toPublic (loop (props s)) (getClonesCount s) (activeIndex s + 1)]
                          else notified t))"
  proof (intro impI, elim conjE)
    assume h: "?big" "\<not> ?d > 0" "activeIndex s \<le> framesCount s - 2"
      "settles_directly s (activeIndex s + 1)"
    have "onEvents s e = goToFrame s (activeIndex s + 1) True"
      using h(1,2,3) by (simp add: main min_def)
    from step[OF this h(4)] show
      "onEvents s e =
                s\<lparr>moved := moved s @ [- real_of_int (activeIndex s + 1) * frameSize s],
                  moving := True,
                  timers := timers s @ [Some (closure s (activeIndex s + 1))]\<rparr>
              \<and> (props t = props s \<and> k < length (timers t)
                   \<and> timers t ! k = Some (closure s (activeIndex s + 1)) \<longrightarrow>
                   activeIndex (runTimer t k) = activeIndex s + 1
                   \<and> notified (runTimer t k)
                       = (if onFrameUpdate (props s)
                          then notified t
                               @ [toPublic (loop (props s)) (getClonesCount s) (activeIndex s + 1)]
                          else notified t))" .
  qed
  have c4: "?big \<and> (if ?d > 0 then activeIndex s = 0 else activeIndex s = framesCount s - 1) \<longrightarrow>
              onEvents s e = goToFrame s (activeIndex s) True"
    by (simp add: main split: if_splits)
  have c5: "frameSize s = 300 \<and> frameBoundary (props s) = 0.25 \<and> \<bar>?d\<bar> = 74 \<longrightarrow>
              onEvents s e = goToFrame s (activeIndex s) True"
    by (simp add: main)
  have c6: "frameSize s = 300 \<and> frameBoundary (props s) = 0.25 \<and> \<bar>?d\<bar> = 76 \<longrightarrow>
              onEvents s e =
                goToFrame s (if ?d > 0 then max (activeIndex s - 1) 0
                             else min (activeIndex s + 1) (framesCount s - 1)) True"
    by (simp add: main)
  show ?thesis
    by (intro conjI) (rule main c2 c3 c4 c5 c6)+
qed


theorem pan_end_commits_clamped_move_witness:
  "onEvents (mounted False 1) (gesture ''panend'' 74 ''pointerup'')
     = goToFrame (mounted False 1) 1 True
   \<and> activeIndex (runTimer (onEvents (mounted False 1) (gesture ''panend'' 76 ''pointerup'')) 0) = 0
   \<and> notified (runTimer (onEvents (mounted False 1) (gesture ''panend'' 76 ''pointerup'')) 0)
       = [1, 0]
   \<and> activeIndex
        (runTimer (onEvents (mounted False 1) (gesture ''pancancel'' (- 76) ''touchcancel'')) 0) = 2
   \<and> onEvents (mounted False 0) (gesture ''panend'' 76 ''pointerup'')
       = goToFrame (mounted False 0) 0 True"
proof -
  have src: "srcEvent_type (gesture ty d ''pointerup'') \<noteq> ''pointercancel''"
            "srcEvent_type (gesture ty d ''touchcancel'') \<noteq> ''pointercancel''" for ty d
    by (simp_all add: gesture_def)
  have ty: "e_type (gesture ''panend'' d src) = PAN_END (mounted False sf)
            \<or> e_type (gesture ''panend'' d src) = PAN_CANCEL (mounted False sf)"
           "e_type (gesture ''pancancel'' d src) = PAN_END (mounted False sf)
            \<or> e_type (gesture ''pancancel'' d src) = PAN_CANCEL (mounted False sf)" for d src sf
    by (simp_all add: gesture_def names_mounted)
  have p: "frameBoundary (props (mounted False sf)) = 0.25" "onFrameUpdate (props (mounted False sf))"
          "\<not> loop (props (mounted False sf))" for sf
    by (simp_all add: props_mounted three_frames_def)
  let ?e76 = "gesture ''panend'' 76 ''pointerup''"
  let ?c76 = "gesture ''pancancel'' (- 76) ''touchcancel''"
  let ?t76 = "(mounted False 1)\<lparr>moved := [- 300, 0], moving := True,
                timers := [Some (closure (mounted False 1) 0)]\<rparr>"
  let ?u76 = "(mounted False 1)\<lparr>moved := [- 300, - 600], moving := True,
                timers := [Some (closure (mounted False 1) 2)]\<rparr>"
  note th74 = pan_end_commits_clamped_move[OF event_names_mounted[of False 1]
                src(1)[of "''panend''" 74] ty(1)[of 74 "''pointerup''" 1]]
  note th76 = pan_end_commits_clamped_move[OF event_names_mounted[of False 1]
                src(1)[of "''panend''" 76] ty(1)[of 76 "''pointerup''" 1], of ?t76 0]
  note thm76 = pan_end_commits_clamped_move[OF event_names_mounted[of False 1]
                src(2)[of "''pancancel''" "- 76"] ty(2)[of "- 76" "''touchcancel''" 1],
                of ?u76 0]
  note th0 = pan_end_commits_clamped_move[OF event_names_mounted[of False 0]
                src(1)[of "''panend''" 76] ty(1)[of 76 "''pointerup''" 0]]
  have a: "onEvents (mounted False 1) (gesture ''panend'' 74 ''pointerup'')
            = goToFrame (mounted False 1) 1 True"
    using th74[THEN conjunct2, THEN conjunct2, THEN conjunct2, THEN conjunct2, THEN conjunct1]
    by (simp add: axis_delta_mounted mounted_False_1_fields p)
  have e76: "onEvents (mounted False 1) ?e76 = ?t76"
    using th76[THEN conjunct2, THEN conjunct1]
    by (simp add: axis_delta_mounted mounted_False_1_fields p settles_directly_mounted)
  have i76: "activeIndex (runTimer ?t76 0) = 0 \<and> notified (runTimer ?t76 0) = [1, 0]"
    using th76[THEN conjunct2, THEN conjunct1]
    by (simp add: axis_delta_mounted mounted_False_1_fields p settles_directly_mounted toPublic_def)
  have b: "activeIndex (runTimer (onEvents (mounted False 1) ?e76) 0) = 0
           \<and> notified (runTimer (onEvents (mounted False 1) ?e76) 0) = [1, 0]"
    unfolding e76 by (rule i76)
  have c76: "onEvents (mounted False 1) ?c76 = ?u76"
    using thm76[THEN conjunct2, THEN conjunct2, THEN conjunct1]
    by (simp add: axis_delta_mounted mounted_False_1_fields p settles_directly_mounted
          framesCount_mounted)
  have j76: "activeIndex (runTimer ?u76 0) = 2"
    using thm76[THEN conjunct2, THEN conjunct2, THEN conjunct1]
    by (simp add: axis_delta_mounted mounted_False_1_fields p settles_directly_mounted
          framesCount_mounted)
  have c: "activeIndex (runTimer (onEvents (mounted False 1) ?c76) 0) = 2"
    unfolding c76 by (rule j76)
  have d: "onEvents (mounted False 0) (gesture ''panend'' 76 ''pointerup'')
            = goToFrame (mounted False 0) 0 True"
    using th0[THEN conjunct2, THEN conjunct2, THEN conjunct2, THEN conjunct1]
    by (simp add: axis_delta_mounted mounted_False_0_fields p)
  from a b c d show ?thesis by simp
qed

text \<open>
  On the first of three frames without looping, a pan-end with delta 76 exceeds the
  boundary of 75 and points towards the previous frame, yet the handler does exactly
  what it does for delta 74: it re-targets index 0, and the completed transition leaves
  the active index at 0. No step is committed.
\<close>

theorem pan_end_at_first_frame_commits_no_step:
  "e_type (gesture ''panend'' 76 ''pointerup'') = PAN_END (mounted False 0)
   \<and> srcEvent_type (gesture ''panend'' 76 ''pointerup'') \<noteq> ''pointercancel''
   \<and> \<bar>axis_delta (mounted False 0) (gesture ''panend'' 76 ''pointerup'')\<bar>
        > frameSize (mounted False 0) * frameBoundary (props (mounted False 0))
   \<and> axis_delta (mounted False 0) (gesture ''panend'' 76 ''pointerup'') > 0
   \<and> activeIndex (mounted False 0) = 0
   \<and> onEvents (mounted False 0) (gesture ''panend'' 76 ''pointerup'')
       = onEvents (mounted False 0) (gesture ''panend'' 74 ''pointerup'')
   \<and> activeIndex (runTimer (onEvents (mounted False 0) (gesture ''panend'' 76 ''pointerup'')) 0) = 0
   \<and> notified (runTimer (onEvents (mounted False 0) (gesture ''panend'' 76 ''pointerup'')) 0)
       = [0, 0]"
  by code_simp

text \<open>
  C8 (amended). For every pan-move event that reaches the handler's switch (a
  pointer-cancel sub-event is discarded before it) and whose delta \<open>d\<close> satisfies
  \<open>\<bar>d\<bar> > frameSize\<close>, the handler at once commits, by an animated call of \<open>goToFrame\<close>,
  a move to the neighbouring index in \<open>d\<close>'s direction, clamped to
  \<open>[0, framesCount - 1]\<close> (towards the previous frame when \<open>d > 0\<close>, towards the next
  otherwise), and stops the recogniser for the current gesture; the position it writes
  is that of the target frame, not the dragged one. The target is exactly one step in \<open>d\<close>'s direction whenever that neighbour lies
  in \<open>[0, framesCount - 1]\<close>, and off a clone the completion of the move, whenever it
  runs, makes it the active index; when the active index is at that end (0 for
  \<open>d > 0\<close>, \<open>framesCount - 1\<close> otherwise) the move re-targets the unchanged active index.
  With \<open>frameSize = 300\<close>, \<open>d = 350\<close> commits the move towards the previous frame.
\<close>

theorem pan_past_full_frame_commits_clamped_move:
  assumes "srcEvent_type e \<noteq> ''pointercancel''"
    and "e_type e = PAN_PREV s \<or> e_type e = PAN_NEXT s"
    and "\<bar>axis_delta s e\<bar> > frameSize s"
  shows "onEvents s e =
           (goToFrame s (if axis_delta s e > 0 then max (activeIndex s - 1) 0
                         else min (activeIndex s + 1) (framesCount s - 1)) True)
             \<lparr>stopped := True\<rparr>
         \<and> stopped (onEvents s e)
         \<and> (axis_delta s e > 0 \<and> 1 \<le> activeIndex s
              \<and> settles_directly s (activeIndex s - 1) \<longrightarrow>
              onEvents s e =
                s\<lparr>moved := moved s @ [- real_of_int (activeIndex s - 1) * frameSize s],
                  moving := True,
                  timers := timers s @ [Some (closure s (activeIndex s - 1))],
                  stopped := True\<rparr>
              \<and> (props t = props s \<and> k < length (timers t)
                   \<and> timers t ! k = Some (closure s (activeIndex s - 1)) \<longrightarrow>
                   activeIndex (runTimer t k) = activeIndex s - 1
                   \<and> notified (runTimer t k)
                       = (if onFrameUpdate (props s)
                          then notified t
                               @ [toPublic (loop (props s)) (getClonesCount s) (activeIndex s - 1)]
                          else notified t)))
         \<and> (\<not> axis_delta s e > 0 \<and> activeIndex s \<le> framesCount s - 2
              \<and> settles_directly s (activeIndex s + 1) \<longrightarrow>
              onEvents s e =
                s\<lparr>moved := moved s @ [- real_of_int (activeIndex s + 1) * frameSize s],
                  moving := True,
                  timers := timers s @ [Some (closure s (activeIndex s + 1))],
                  stopped := True\<rparr>
              \<and> (props t = props s \<and> k < length (timers t)
                   \<and> timers t ! k = Some (closure s (activeIndex s + 1)) \<longrightarrow>
                   activeIndex (runTimer t k) = activeIndex s + 1
                   \<and> notified (runTimer t k)
                       = (if onFrameUpdate (props s)
                          then notified t
                               @ [toPublic (loop (props s)) (getClonesCount s) (activeIndex s + 1)]
                          else notified t)))
         \<and> ((if axis_delta s e > 0 then activeIndex s = 0
              else activeIndex s = framesCount s - 1) \<longrightarrow>
              onEvents s e = (goToFrame s (activeIndex s) True)\<lparr>stopped := True\<rparr>)
         \<and> (frameSize s = 300 \<and> axis_delta s e = 350 \<longrightarrow>
              onEvents s e = (goToFrame s (max (activeIndex s - 1) 0) True)\<lparr>stopped := True\<rparr>)"
proof -
  let ?d = "axis_delta s e"
  have main: "onEvents s e =
           (goToFrame s (if ?d > 0 then max (activeIndex s - 1) 0
                         else min (activeIndex s + 1) (framesCount s - 1)) True)
             \<lparr>stopped := True\<rparr>"
    using assms
    by (simp add: onEvents_def Let_def prev_frame_def next_frame_def getNextIndex_def)
  have c1: "stopped (onEvents s e)"
    by (simp add: main)
  have step: "onEvents s e =
                s\<lparr>moved := moved s @ [- real_of_int i * frameSize s], moving := True,
                  timers := timers s @ [Some (closure s i)], stopped := True\<rparr>
              \<and> (props t = props s \<and> k < length (timers t)
                   \<and> timers t ! k = Some (closure s i) \<longrightarrow>
                   activeIndex (runTimer t k) = i
                   \<and> notified (runTimer t k)
                       = (if onFrameUpdate (props s)
                          then notified t @ [toPublic (loop (props s)) (getClonesCount s) i]
                          else notified t))"
    if "onEvents s e = (goToFrame s i True)\<lparr>stopped := True\<rparr>" "settles_directly s i" for i
    using that(1) goToFrame_schedules[OF that(2)] closure_completes[OF that(2), of t k]
    by simp
  have c2: "?d > 0 \<and> 1 \<le> activeIndex s \<and> settles_directly s (activeIndex s - 1) \<longrightarrow>
              onEvents s e =
                s\<lparr>moved := moved s @ [- real_of_int (activeIndex s - 1) * frameSize s],
                  moving := True,
                  timers := timers s @ [Some (closure s (activeIndex s - 1))],
                  stopped := True\<rparr>
              \<and> (props t = props s \<and> k < length (timers t)
                   \<and> timers t ! k = Some (closure s (activeIndex s - 1)) \<longrightarrow>
                   activeIndex (runTimer t k) = activeIndex s - 1
                   \<and> notified (runTimer t k)
                       = (if onFrameUpdate (props s)
                          then notified t
                               @ [toPublic (loop (props s)) (getClonesCount s) (activeIndex s - 1)]
                          else notified t))"
  proof (intro impI, elim conjE)
    assume h: "?d > 0" "1 \<le> activeIndex s" "settles_directly s (activeIndex s - 1)"
    have "onEvents s e = (goToFrame s (activeIndex s - 1) True)\<lparr>stopped := True\<rparr>"
      using h(1,2) by (simp add: main max_def)
    from step[OF this h(3)] show
      "onEvents s e =
                s\<lparr>moved := moved s @ [- real_of_int (activeIndex s - 1) * frameSize s],
                  moving := True,
                  timers := timers s @ [Some (closure s (activeIndex s - 1))],
                  stopped := True\<rparr>
              \<and> (props t = props s \<and> k < length (timers t)
                   \<and> timers t ! k = Some (closure s (activeIndex s - 1)) \<longrightarrow>
                   activeIndex (runTimer t k) = activeIndex s - 1
                   \<and> notified (runTimer t k)
                       = (if onFrameUpdate (props s)
                          then notified t
                               @ [toPublic (loop (props s)) (getClonesCount s) (activeIndex s - 1)]
                          else notified t))" .
  qed
  have c3: "\<not> ?d > 0 \<and> activeIndex s \<le> framesCount s - 2
              \<and> settles_directly s (activeIndex s + 1) \<longrightarrow>
              onEvents s e =
                s\<lparr>moved := moved s @ [- real_of_int (activeIndex s + 1) * frameSize s],
                  moving := True,
                  timers := timers s @ [Some (closure s (activeIndex s + 1))],
                  stopped := True\<rparr>
              \<and> (props t = props s \<and> k < length (timers t)
                   \<and> timers t ! k = Some (closure s (activeIndex s + 1)) \<longrightarrow>
                   activeIndex (runTimer t k) = activeIndex s + 1
                   \<and> notified (runTimer t k)
                       = (if onFrameUpdate (props s)
                          then notified t
                               @ [toPublic (loop (props s)) (getClonesCount s) (activeIndex s + 1)]
                          else notified t))"
  proof (intro impI, elim conjE)
    assume h: "\<not> ?d > 0" "activeIndex s \<le> framesCount s - 2"
      "settles_directly s (activeIndex s + 1)"
    have "onEvents s e = (goToFrame s (activeIndex s + 1) True)\<lparr>stopped := True\<rparr>"
      using h(1,2) by (simp add: main min_def)
    from step[OF this h(3)] show
      "onEvents s e =
                s\<lparr>moved := moved s @ [- real_of_int (activeIndex s + 1) * frameSize s],
                  moving := True,
                  timers := timers s @ [Some (closure s (activeIndex s + 1))],
                  stopped := True\<rparr>
              \<and> (props t = props s \<and> k < length (timers t)
                   \<and> timers t ! k = Some (closure s (activeIndex s + 1)) \<longrightarrow>
                   activeIndex (runTimer t k) = activeIndex s + 1
                   \<and> notified (runTimer t k)
                       = (if onFrameUpdate (props s)
                          then notified t
                               @ [toPublic (loop (props s)) (getClonesCount s) (activeIndex s + 1)]
                          else notified t))" .
  qed
  have c4: "(if ?d > 0 then activeIndex s = 0 else activeIndex s = framesCount s - 1) \<longrightarrow>
              onEvents s e = (goToFrame s (activeIndex s) True)\<lparr>stopped := True\<rparr>"
    by (simp add: main split: if_splits)
  have c5: "frameSize s = 300 \<and> ?d = 350 \<longrightarrow>
              onEvents s e = (goToFrame s (max (activeIndex s - 1) 0) True)\<lparr>stopped := True\<rparr>"
    by (simp add: main)
  show ?thesis
    by (intro conjI) (rule main c1 c2 c3 c4 c5)+
qed

theorem pan_past_full_frame_commits_clamped_move_witness:
  "stopped (onEvents (mounted False 1) (gesture ''panright'' 350 ''pointermove''))
   \<and> position (onEvents (mounted False 1) (gesture ''panright'' 350 ''pointermove'')) = Some 0
   \<and> activeIndex
        (runTimer (onEvents (mounted False 1) (gesture ''panright'' 350 ''pointermove'')) 0) = 0
   \<and> position (onEvents (mounted False 1) (gesture ''panleft'' (- 350) ''pointermove''))
       = Some (- 600)
   \<and> activeIndex
        (runTimer (onEvents (mounted False 1) (gesture ''panleft'' (- 350) ''pointermove'')) 0) = 2"
proof -
  have src: "srcEvent_type (gesture ty d ''pointermove'') \<noteq> ''pointercancel''" for ty d
    by (simp add: gesture_def)
  have ty: "e_type (gesture ''panright'' d src) = PAN_PREV (mounted False 1)
            \<or> e_type (gesture ''panright'' d src) = PAN_NEXT (mounted False 1)"
           "e_type (gesture ''panleft'' d src) = PAN_PREV (mounted False 1)
            \<or> e_type (gesture ''panleft'' d src) = PAN_NEXT (mounted False 1)" for d src
    by (simp_all add: gesture_def names_mounted)
  have big: "\<bar>axis_delta (mounted False 1) (gesture ty 350 src)\<bar> > frameSize (mounted False 1)"
            "\<bar>axis_delta (mounted False 1) (gesture ty (- 350) src)\<bar> > frameSize (mounted False 1)"
    for ty src
    by (simp_all add: axis_delta_mounted mounted_False_1_fields)
  let ?p = "gesture ''panright'' 350 ''pointermove''"
  let ?n = "gesture ''panleft'' (- 350) ''pointermove''"
  let ?tp = "(mounted False 1)\<lparr>moved := [- 300, 0], moving := True,
               timers := [Some (closure (mounted False 1) 0)], stopped := True\<rparr>"
  let ?tn = "(mounted False 1)\<lparr>moved := [- 300, - 600], moving := True,
               timers := [Some (closure (mounted False 1) 2)], stopped := True\<rparr>"
  note thp = pan_past_full_frame_commits_clamped_move[OF src ty(1) big(1), of ?tp 0]
  note thn = pan_past_full_frame_commits_clamped_move[OF src ty(2) big(2), of ?tn 0]
  have a: "stopped (onEvents (mounted False 1) ?p)"
    using thp[THEN conjunct2, THEN conjunct1] .
  have ep: "onEvents (mounted False 1) ?p = ?tp"
    using thp[THEN conjunct2, THEN conjunct2, THEN conjunct1]
    by (simp add: axis_delta_mounted mounted_False_1_fields settles_directly_mounted)
  have ip: "activeIndex (runTimer ?tp 0) = 0"
    using thp[THEN conjunct2, THEN conjunct2, THEN conjunct1]
    by (simp add: axis_delta_mounted mounted_False_1_fields settles_directly_mounted)
  have b: "position (onEvents (mounted False 1) ?p) = Some 0
           \<and> activeIndex (runTimer (onEvents (mounted False 1) ?p) 0) = 0"
    unfolding ep using ip by (simp add: position_def)
  have en: "onEvents (mounted False 1) ?n = ?tn"
    using thn[THEN conjunct2, THEN conjunct2, THEN conjunct2, THEN conjunct1]
    by (simp add: axis_delta_mounted mounted_False_1_fields settles_directly_mounted
          framesCount_mounted)
  have jn: "activeIndex (runTimer ?tn 0) = 2"
    using thn[THEN conjunct2, THEN conjunct2, THEN conjunct2, THEN conjunct1]
    by (simp add: axis_delta_mounted mounted_False_1_fields settles_directly_mounted
          framesCount_mounted)
  have c: "position (onEvents (mounted False 1) ?n) = Some (- 600)
           \<and> activeIndex (runTimer (onEvents (mounted False 1) ?n) 0) = 2"
    unfolding en using jn by (simp add: position_def)
  from a b c show ?thesis by simp
qed

text \<open>
  On the first of three frames without looping, a pan-move with delta 350 exceeds the
  frame size of 300 and points towards the previous frame; the handler re-targets
  index 0 and stops the recogniser, and the completed transition leaves the active
  index at 0 and the container at offset 0. No step is committed.
\<close>

theorem pan_past_full_frame_at_first_frame_commits_no_step:
  "e_type (gesture ''panright'' 350 ''pointermove'') = PAN_NEXT (mounted False 0)
   \<and> srcEvent_type (gesture ''panright'' 350 ''pointermove'') \<noteq> ''pointercancel''
   \<and> \<bar>axis_delta (mounted False 0) (gesture ''panright'' 350 ''pointermove'')\<bar>
        > frameSize (mounted False 0)
   \<and> activeIndex (mounted False 0) = 0
   \<and> stopped (onEvents (mounted False 0) (gesture ''panright'' 350 ''pointermove''))
   \<and> activeIndex
        (runTimer (onEvents (mounted False 0) (gesture ''panright'' 350 ''pointermove'')) 0) = 0
   \<and> moved (runTimer (onEvents (mounted False 0) (gesture ''panright'' 350 ''pointermove'')) 0)
       = [0, 0]
   \<and> notified (runTimer (onEvents (mounted False 0) (gesture ''panright'' 350 ''pointermove'')) 0)
       = [0, 0]"
  by code_simp

text \<open>
  C9. For every pan-move event that reaches the handler's switch (a pointer-cancel
  sub-event is discarded before it) and whose delta \<open>d\<close> satisfies \<open>\<bar>d\<bar> \<le> frameSize\<close>,
  the handler writes the position \<open>framePos + d'\<close> without animation, where
  \<open>framePos = - activeIndex * frameSize\<close> and \<open>d'\<close> is exactly \<open>d * 0.15\<close> when looping is
  disabled and \<open>framePos + d\<close> is out of bounds (active index 0 with position \<open>\<ge> 0\<close>, or
  active index \<open>last\<close> with position \<open>\<le> - frameSize * last\<close>), and \<open>d\<close> itself otherwise,
  in particular at every interior index and whenever looping is enabled. Nothing else
  changes: the active index stays.
\<close>

theorem live_drag_dampening:
  assumes "srcEvent_type e \<noteq> ''pointercancel''"
    and "e_type e = PAN_PREV s \<or> e_type e = PAN_NEXT s"
    and "\<bar>axis_delta s e\<bar> \<le> frameSize s"
  shows "onEvents s e =
           s\<lparr>moved := moved s @
               [- real_of_int (activeIndex s) * frameSize s
                + (if \<not> loop (props s)
                      \<and> isOutOfBounds s (- real_of_int (activeIndex s) * frameSize s + axis_delta s e)
                   then axis_delta s e * 0.15 else axis_delta s e)]\<rparr>
         \<and> (isOutOfBounds s p \<longleftrightarrow>
               (activeIndex s = 0 \<and> p \<ge> 0)
               \<or> (activeIndex s = framesCount s - 1
                   \<and> p \<le> - frameSize s * real_of_int (framesCount s - 1)))
         \<and> (loop (props s) \<or> (activeIndex s \<noteq> 0 \<and> activeIndex s \<noteq> framesCount s - 1) \<longrightarrow>
               moved (onEvents s e)
                 = moved s @ [- real_of_int (activeIndex s) * frameSize s + axis_delta s e])
         \<and> activeIndex (onEvents s e) = activeIndex s
         \<and> notified (onEvents s e) = notified s
         \<and> timers (onEvents s e) = timers s"
proof -
  have ev: "onEvents s e =
           s\<lparr>moved := moved s @
               [- real_of_int (activeIndex s) * frameSize s
                + (if \<not> loop (props s)
                      \<and> isOutOfBounds s (- real_of_int (activeIndex s) * frameSize s + axis_delta s e)
                   then axis_delta s e * 0.15 else axis_delta s e)]\<rparr>"
    using assms by (simp add: onEvents_def Let_def moveContainerBy.simps)
  have oob: "isOutOfBounds s p \<longleftrightarrow>
               (activeIndex s = 0 \<and> p \<ge> 0)
               \<or> (activeIndex s = framesCount s - 1
                   \<and> p \<le> - frameSize s * real_of_int (framesCount s - 1))" for p
    by (simp add: isOutOfBounds_def Let_def)
  show ?thesis
    unfolding ev by (auto simp: oob)
qed

theorem live_drag_dampening_witness:
  "moved (onEvents (mounted False 0) (gesture ''panright'' 100 ''pointermove'')) = [0, 15]
   \<and> moved (onEvents (mounted False 1) (gesture ''panright'' 100 ''pointermove'')) = [- 300, - 200]
   \<and> moved (onEvents (mounted False 2) (gesture ''panleft'' (- 100) ''pointermove'')) = [- 600, - 615]
   \<and> moved (onEvents (mounted True 0) (gesture ''panleft'' (- 100) ''pointermove'')) = [0, - 600, - 700]
   \<and> activeIndex (onEvents (mounted False 0) (gesture ''panright'' 100 ''pointermove'')) = 0"
proof -
  have src: "srcEvent_type (gesture ty d ''pointermove'') \<noteq> ''pointercancel''" for ty d
    by (simp add: gesture_def)
  have names: "PAN_PREV (mounted lp sf) = ''panleft''" "PAN_NEXT (mounted lp sf) = ''panright''" for lp sf
    using event_names_mounted[of lp sf]
    by (simp_all add: event_names_def constructor_def props_mounted three_frames_def)
  have ty: "e_type (gesture ''panright'' d src) = PAN_PREV (mounted lp sf)
            \<or> e_type (gesture ''panright'' d src) = PAN_NEXT (mounted lp sf)"
           "e_type (gesture ''panleft'' d src) = PAN_PREV (mounted lp sf)
            \<or> e_type (gesture ''panleft'' d src) = PAN_NEXT (mounted lp sf)" for d src lp sf
    by (simp_all add: gesture_def names)
  have m0: "frameSize (mounted False 0) = 300" "activeIndex (mounted False 0) = 0"
           "moved (mounted False 0) = [0]"
    by code_simp+
  have m1: "frameSize (mounted False 1) = 300" "activeIndex (mounted False 1) = 1"
           "moved (mounted False 1) = [- 300]"
    by code_simp+
  have m2: "frameSize (mounted False 2) = 300" "activeIndex (mounted False 2) = 2"
           "moved (mounted False 2) = [- 600]"
    by code_simp+
  have l0: "frameSize (mounted True 0) = 300" "activeIndex (mounted True 0) = 2"
           "moved (mounted True 0) = [0, - 600]"
    by code_simp+
  have lp: "loop (props (mounted lp sf)) = lp" for lp sf
    by (simp add: props_mounted three_frames_def)
  have small: "\<bar>axis_delta (mounted lp sf) (gesture ty 100 src)\<bar> \<le> 300"
              "\<bar>axis_delta (mounted lp sf) (gesture ty (- 100) src)\<bar> \<le> 300" for lp sf ty src
    by (simp_all add: axis_delta_mounted)
  show ?thesis
    using live_drag_dampening[OF src ty(1)[of 100 "''pointermove''" False 0], of 0]
          live_drag_dampening[OF src ty(1)[of 100 "''pointermove''" False 1], of 0]
          live_drag_dampening[OF src ty(2)[of "- 100" "''pointermove''" False 2], of 0]
          live_drag_dampening[OF src ty(2)[of "- 100" "''pointermove''" True 0], of 0]
    by (simp add: axis_delta_mounted m0 m1 m2 l0 lp framesCount_mounted isOutOfBounds_def)
qed

section \<open>Re-settling at the active index\<close>

text \<open>
  C10 (amended). Whenever \<open>goToFrame\<close> is aimed at the current active index (the
  snap back of a pan-end below the boundary, or the re-settle of \<open>init\<close> on mount,
  \<open>recalculate\<close> and resize), the index is accepted and off a clone, and the host listens
  to \<open>onFrameUpdate\<close>, the completion assigns that index to \<open>activeIndex\<close> and calls
  \<open>onFrameUpdate\<close> with its public index. If \<open>activeIndex\<close> still holds that index when the
  completion runs, which is always so for the unanimated re-settle and, for the animated
  snap back, whenever no other transition has completed in between, then
  \<open>onFrameUpdate\<close> is called again with the current, unchanged public index and
  \<open>activeIndex\<close> is reassigned its own value: a call of \<open>onFrameUpdate\<close> does not imply
  that the active frame changed.
\<close>

theorem resettle_completion:
  assumes "onFrameUpdate (props s)" and "settles_directly s (activeIndex s)"
  shows "goToFrame s (activeIndex s) False =
           s\<lparr>moved := moved s @ [- real_of_int (activeIndex s) * frameSize s],
             notified := notified s
                @ [toPublic (loop (props s)) (getClonesCount s) (activeIndex s)]\<rparr>
         \<and> goToFrame s (activeIndex s) True =
           s\<lparr>moved := moved s @ [- real_of_int (activeIndex s) * frameSize s],
             moving := True,
             timers := timers s @ [Some \<lparr>c_index = activeIndex s, c_framesCount = framesCount s,
                                       c_loop = loop (props s), c_onFrameUpdate = True\<rparr>]\<rparr>
         \<and> (props t = props s \<and> k < length (timers t)
              \<and> timers t ! k = Some \<lparr>c_index = activeIndex s, c_framesCount = framesCount s,
                                      c_loop = loop (props s), c_onFrameUpdate = True\<rparr> \<longrightarrow>
              runTimer t k =
                t\<lparr>timers := take k (timers t) @ drop (Suc k) (timers t), moving := False,
                  activeIndex := activeIndex s,
                  notified := notified t
                     @ [toPublic (loop (props s)) (getClonesCount s) (activeIndex s)]\<rparr>
              \<and> (activeIndex t = activeIndex s \<longrightarrow>
                   activeIndex (runTimer t k) = activeIndex t
                   \<and> notified (runTimer t k)
                       = notified t
                         @ [toPublic (loop (props t)) (getClonesCount t) (activeIndex t)]))
         \<and> activeIndex (init s m) = activeIndex s
         \<and> notified (init s m)
             = notified s @ [toPublic (loop (props s)) (getClonesCount s) (activeIndex s)]
         \<and> activeIndex (recalculate s m) = activeIndex s
         \<and> notified (recalculate s m)
             = notified s @ [toPublic (loop (props s)) (getClonesCount s) (activeIndex s)]
         \<and> activeIndex (onWindowChanges s m) = activeIndex s
         \<and> notified (onWindowChanges s m)
             = notified s @ [toPublic (loop (props s)) (getClonesCount s) (activeIndex s)]
         \<and> (event_names s \<and> srcEvent_type e \<noteq> ''pointercancel''
              \<and> (e_type e = PAN_END s \<or> e_type e = PAN_CANCEL s)
              \<and> \<bar>axis_delta s e\<bar> \<le> frameSize s * frameBoundary (props s) \<longrightarrow>
              onEvents s e = goToFrame s (activeIndex s) True)"
proof -
  let ?c = "\<lparr>c_index = activeIndex s, c_framesCount = framesCount s,
             c_loop = loop (props s), c_onFrameUpdate = True\<rparr>"
  let ?pub = "toPublic (loop (props s)) (getClonesCount s) (activeIndex s)"
  have acc: "\<not> (framesCount s = 0 \<or> activeIndex s < 0 \<or> activeIndex s > framesCount s)"
    and off: "\<not> (loop (props s) \<and> (activeIndex s < getClonesCount s
                   \<or> activeIndex s > (framesCount s - 1) - getClonesCount s))"
    using assms(2) by (simp_all add: settles_directly_def)
  have sync: "goToFrame s (activeIndex s) False =
           s\<lparr>moved := moved s @ [- real_of_int (activeIndex s) * frameSize s],
             notified := notified s @ [?pub]\<rparr>"
    using assms by (simp add: goToFrame_immediate_settles)
  have anim: "goToFrame s (activeIndex s) True =
           s\<lparr>moved := moved s @ [- real_of_int (activeIndex s) * frameSize s],
             moving := True, timers := timers s @ [Some ?c]\<rparr>"
    using acc assms(1) by (simp add: goToFrame_animated)
  have later: "props t = props s \<and> k < length (timers t) \<and> timers t ! k = Some ?c \<longrightarrow>
              runTimer t k =
                t\<lparr>timers := take k (timers t) @ drop (Suc k) (timers t), moving := False,
                  activeIndex := activeIndex s, notified := notified t @ [?pub]\<rparr>
              \<and> (activeIndex t = activeIndex s \<longrightarrow>
                   activeIndex (runTimer t k) = activeIndex t
                   \<and> notified (runTimer t k)
                       = notified t
                         @ [toPublic (loop (props t)) (getClonesCount t) (activeIndex t)])"
  proof (intro impI, elim conjE)
    assume h: "props t = props s" "k < length (timers t)" "timers t ! k = Some ?c"
    have gc: "getClonesCount t = getClonesCount s"
      using h(1) by (simp add: getClonesCount_def)
    have run: "runTimer t k =
                t\<lparr>timers := take k (timers t) @ drop (Suc k) (timers t), moving := False,
                  activeIndex := activeIndex s, notified := notified t @ [?pub]\<rparr>"
      using completion_runs[OF h(2,3)] off by (simp add: gc)
    show "runTimer t k =
                t\<lparr>timers := take k (timers t) @ drop (Suc k) (timers t), moving := False,
                  activeIndex := activeIndex s, notified := notified t @ [?pub]\<rparr>
              \<and> (activeIndex t = activeIndex s \<longrightarrow>
                   activeIndex (runTimer t k) = activeIndex t
                   \<and> notified (runTimer t k)
                       = notified t
                         @ [toPublic (loop (props t)) (getClonesCount t) (activeIndex t)])"
      unfolding run by (simp add: gc h(1))
  qed
  have ini: "init s m =
           s\<lparr>frameSize := m, moved := moved s @ [- real_of_int (activeIndex s) * m],
             notified := notified s @ [?pub]\<rparr>"
    using assms goToFrame_immediate_settles[of "s\<lparr>frameSize := m\<rparr>" "activeIndex s"]
    by (simp add: init_def)
  have i1: "activeIndex (init s m) = activeIndex s" and i2: "notified (init s m) = notified s @ [?pub]"
    and i3: "activeIndex (recalculate s m) = activeIndex s"
    and i4: "notified (recalculate s m) = notified s @ [?pub]"
    and i5: "activeIndex (onWindowChanges s m) = activeIndex s"
    and i6: "notified (onWindowChanges s m) = notified s @ [?pub]"
    by (simp_all add: recalculate_def onWindowChanges_def ini)
  have snap: "event_names s \<and> srcEvent_type e \<noteq> ''pointercancel''
              \<and> (e_type e = PAN_END s \<or> e_type e = PAN_CANCEL s)
              \<and> \<bar>axis_delta s e\<bar> \<le> frameSize s * frameBoundary (props s) \<longrightarrow>
              onEvents s e = goToFrame s (activeIndex s) True"
  proof (intro impI, elim conjE)
    assume h: "event_names s" "srcEvent_type e \<noteq> ''pointercancel''"
       "e_type e = PAN_END s \<or> e_type e = PAN_CANCEL s"
       "\<bar>axis_delta s e\<bar> \<le> frameSize s * frameBoundary (props s)"
    have "e_type e \<noteq> PAN_PREV s" "e_type e \<noteq> PAN_NEXT s"
      "e_type e \<noteq> SWIPE_PREV s" "e_type e \<noteq> SWIPE_NEXT s"
      using h(1,3) by (auto simp: event_names_def constructor_def split: if_splits)
    then show "onEvents s e = goToFrame s (activeIndex s) True"
      using h by (simp add: onEvents_def Let_def)
  qed
  show ?thesis
    by (intro conjI) (rule sync anim later i1 i2 i3 i4 i5 i6 snap)+
qed

theorem resettle_completion_witness:
  "notified (mounted False 1) = [1]
   \<and> notified (goToFrame (mounted False 1) 1 False) = [1, 1]
   \<and> activeIndex (init (mounted False 1) 300) = 1
   \<and> notified (init (mounted False 1) 300) = [1, 1]
   \<and> notified (recalculate (mounted False 1) 500) = [1, 1]
   \<and> onEvents (mounted False 1) (gesture ''panend'' 10 ''pointerup'')
       = goToFrame (mounted False 1) 1 True
   \<and> activeIndex (runTimer (goToFrame (mounted False 1) 1 True) 0) = 1
   \<and> notified (runTimer (goToFrame (mounted False 1) 1 True) 0) = [1, 1]"
proof -
  have cb: "onFrameUpdate (props (mounted False 1))"
    by (simp add: props_mounted three_frames_def)
  have st: "settles_directly (mounted False 1) (activeIndex (mounted False 1))"
    by (simp add: settles_directly_mounted mounted_False_1_fields)
  have pub: "toPublic (loop (props (mounted False 1))) (getClonesCount (mounted False 1)) 1 = 1"
    by (simp add: toPublic_def props_mounted three_frames_def)
  have lp: "loop (props (mounted False 1)) = False"
    by (simp add: props_mounted three_frames_def)
  note f = mounted_False_1_fields framesCount_mounted
  let ?e = "gesture ''panend'' 10 ''pointerup''"
  let ?t = "goToFrame (mounted False 1) 1 True"
  note th = resettle_completion[OF cb st, of ?t 0 300 ?e]
  note th5 = resettle_completion[OF cb st, of ?t 0 500 ?e]
  have a: "goToFrame (mounted False 1) 1 False
            = (mounted False 1)\<lparr>moved := [- 300, - 300], notified := [1, 1]\<rparr>"
    using th[THEN conjunct1] by (simp add: f pub)
  have b: "?t = (mounted False 1)\<lparr>moved := [- 300, - 300], moving := True,
             timers := [Some \<lparr>c_index = 1, c_framesCount = 3, c_loop = False,
                              c_onFrameUpdate = True\<rparr>]\<rparr>"
    using th[THEN conjunct2, THEN conjunct1] by (simp add: f lp)
  have c: "activeIndex (runTimer ?t 0) = 1 \<and> notified (runTimer ?t 0) = [1, 1]"
    using th[THEN conjunct2, THEN conjunct2, THEN conjunct1] props_kept(1)[of "mounted False 1" 1 True]
    by (simp add: b f lp toPublic_def)
  have d: "activeIndex (init (mounted False 1) 300) = 1
           \<and> notified (init (mounted False 1) 300) = [1, 1]"
    using th[THEN conjunct2, THEN conjunct2, THEN conjunct2, THEN conjunct1]
          th[THEN conjunct2, THEN conjunct2, THEN conjunct2, THEN conjunct2, THEN conjunct1]
    by (simp add: f pub)
  have e: "notified (recalculate (mounted False 1) 500) = [1, 1]"
    using th5[THEN conjunct2, THEN conjunct2, THEN conjunct2, THEN conjunct2, THEN conjunct2,
              THEN conjunct2, THEN conjunct1]
    by (simp add: f pub)
  have ev: "event_names (mounted False 1)
            \<and> srcEvent_type ?e \<noteq> ''pointercancel''
            \<and> (e_type ?e = PAN_END (mounted False 1) \<or> e_type ?e = PAN_CANCEL (mounted False 1))
            \<and> \<bar>axis_delta (mounted False 1) ?e\<bar>
                \<le> frameSize (mounted False 1) * frameBoundary (props (mounted False 1))"
    by (simp add: event_names_mounted axis_delta_mounted f props_mounted)
       (simp add: gesture_def three_frames_def)
  have g: "onEvents (mounted False 1) ?e = ?t"
    using th[THEN conjunct2, THEN conjunct2, THEN conjunct2, THEN conjunct2, THEN conjunct2,
             THEN conjunct2, THEN conjunct2, THEN conjunct2, THEN conjunct2] ev
    by (simp add: f)
  show ?thesis
    unfolding g a using c d e by (simp add: f)
qed

text \<open>
  Three frames without looping, settled on index 0, with \<open>goTo 2\<close> pending: a pan-end
  below the boundary snaps back to the current active index 0. The two completions run
  in the order issued. The first makes 2 the active index; the completion of the snap
  back then finds the active index at 2, sets it to 0 and notifies 0. That call of
  \<open>onFrameUpdate\<close> goes with a change of the active frame, and the index it reports is
  not the one that was current.
\<close>

theorem resettle_completion_after_other_transition:
  "activeIndex (goTo (mounted False 0) 2) = 0
   \<and> onEvents (goTo (mounted False 0) 2) (gesture ''panend'' 10 ''pointerup'')
       = goToFrame (goTo (mounted False 0) 2) (activeIndex (goTo (mounted False 0) 2)) True
   \<and> activeIndex
        (runTimer (onEvents (goTo (mounted False 0) 2) (gesture ''panend'' 10 ''pointerup'')) 0) = 2
   \<and> notified
        (runTimer (onEvents (goTo (mounted False 0) 2) (gesture ''panend'' 10 ''pointerup'')) 0)
       = [0, 2]
   \<and> activeIndex
        (runTimer
          (runTimer (onEvents (goTo (mounted False 0) 2) (gesture ''panend'' 10 ''pointerup'')) 0)
          0) = 0
   \<and> notified
        (runTimer
          (runTimer (onEvents (goTo (mounted False 0) 2) (gesture ''panend'' 10 ''pointerup'')) 0)
          0) = [0, 2, 0]"
  by code_simp

section \<open>Seam jumps\<close>

lemma seam_targets_settle:
  assumes "loop (props s)" and "framesCount s \<noteq> 0" and "0 \<le> clonesCount (props s)"
  shows "settles_directly s (getClonesCount s)"
    and "settles_directly s ((framesCount s - 1) - getClonesCount s)"
proof -
  from assms(2) have ne: "children (props s) \<noteq> []"
    by (auto simp: framesCount_eq)
  then have pos: "1 \<le> int (length (children (props s)))"
    by (cases "children (props s)") simp_all
  have c0: "0 \<le> getClonesCount s" using assms(3) by (simp add: getClonesCount_def)
  have cn: "getClonesCount s \<le> int (length (children (props s)))"
    by (simp add: getClonesCount_def)
  have fc: "framesCount s = int (length (children (props s))) + 2 * getClonesCount s"
    using ne assms(1) c0 by (simp add: framesCount_eq)
  show "settles_directly s (getClonesCount s)"
    using ne pos c0 cn fc by (auto simp: settles_directly_def)
  show "settles_directly s ((framesCount s - 1) - getClonesCount s)"
    using ne pos c0 cn fc by (auto simp: settles_directly_def)
qed

lemma seam_jump_lands:
  assumes "loop (props s)" and "framesCount s \<noteq> 0" and "0 \<le> clonesCount (props s)"
    and "c_loop d" and "c_framesCount d = framesCount s"
    and "c_index d < getClonesCount s \<or> c_index d > (framesCount s - 1) - getClonesCount s"
  shows "activeIndex (goToFrame_done s d)
           = (if activeIndex s \<le> c_index d then getClonesCount s
              else (framesCount s - 1) - getClonesCount s)"
    and "moved (goToFrame_done s d)
           = moved s @ [- real_of_int (if activeIndex s \<le> c_index d then getClonesCount s
                                       else (framesCount s - 1) - getClonesCount s) * frameSize s]"
    and "timers (goToFrame_done s d) = timers s"
proof -
  let ?t = "if activeIndex s \<le> c_index d then getClonesCount s
            else (framesCount s - 1) - getClonesCount s"
  have j: "goToFrame_done s d = goToFrame s ?t False"
    using assms(4,5,6) by (simp add: goToFrame_done_jump)
  have st: "settles_directly s ?t"
    using seam_targets_settle[OF assms(1,2,3)] by simp
  show "activeIndex (goToFrame_done s d) = ?t"
    unfolding j goToFrame_immediate_settles[OF st] by simp
  show "moved (goToFrame_done s d) = moved s @ [- real_of_int ?t * frameSize s]"
    unfolding j goToFrame_immediate_settles[OF st] by simp
  show "timers (goToFrame_done s d) = timers s"
    unfolding j goToFrame_immediate_settles[OF st] by simp
qed

text \<open>
  C2 (amended). When the completion of a \<open>goToFrame\<close> (for an animated call: when its
  timer runs) finds looping enabled and its target outside \<open>[first, last]\<close>, where
  \<open>first = getClonesCount\<close> and \<open>last = (framesCount - 1) - getClonesCount\<close>, it
  re-invokes \<open>goToFrame\<close> unanimated at \<open>first\<close> if \<open>activeIndex \<le> target\<close> (ties count
  as forward) and at \<open>last\<close> otherwise; in every other case it sets \<open>activeIndex\<close> to the
  target. With 3 real frames and \<open>clonesCount = 2\<close> the padded length is 7; settling at
  internal index 0 jumps to 2 when \<open>activeIndex \<le> 0\<close> and to 4 otherwise, and settling at
  internal index 6 jumps to 2 when \<open>activeIndex \<le> 6\<close> and to 4 otherwise.
\<close>

theorem seam_jump:
  "(\<not> (framesCount s = 0 \<or> index < 0 \<or> index > framesCount s) \<longrightarrow>
      runTimer (goToFrame s index True) (length (timers s))
        = goToFrame_done (s\<lparr>moved := moved s @ [- real_of_int index * frameSize s],
                            moving := False\<rparr>)
            \<lparr>c_index = index, c_framesCount = framesCount s, c_loop = loop (props s),
             c_onFrameUpdate = onFrameUpdate (props s)\<rparr>)
   \<and> (c_loop d \<and> (c_index d < getClonesCount s
                    \<or> c_index d > (c_framesCount d - 1) - getClonesCount s) \<longrightarrow>
        goToFrame_done s d
          = goToFrame s (if activeIndex s \<le> c_index d then getClonesCount s
                         else (c_framesCount d - 1) - getClonesCount s) False)
   \<and> (\<not> (c_loop d \<and> (c_index d < getClonesCount s
                       \<or> c_index d > (c_framesCount d - 1) - getClonesCount s)) \<longrightarrow>
        activeIndex (goToFrame_done s d) = c_index d \<and> moved (goToFrame_done s d) = moved s)
   \<and> (loop (props s) \<and> length (children (props s)) = 3 \<and> clonesCount (props s) = 2
        \<and> c_loop d \<and> c_framesCount d = framesCount s \<longrightarrow>
        framesCount s = 7
        \<and> (c_index d = 0 \<longrightarrow>
             activeIndex (goToFrame_done s d) = (if activeIndex s \<le> 0 then 2 else 4)
             \<and> moved (goToFrame_done s d)
                 = moved s @ [- real_of_int (if activeIndex s \<le> 0 then 2 else 4) * frameSize s])
        \<and> (c_index d = 6 \<longrightarrow>
             activeIndex (goToFrame_done s d) = (if activeIndex s \<le> 6 then 2 else 4)
             \<and> moved (goToFrame_done s d)
                 = moved s @ [- real_of_int (if activeIndex s \<le> 6 then 2 else 4) * frameSize s]))"
proof -
  have timer: "runTimer (goToFrame s index True) (length (timers s))
        = goToFrame_done (s\<lparr>moved := moved s @ [- real_of_int index * frameSize s],
                            moving := False\<rparr>)
            \<lparr>c_index = index, c_framesCount = framesCount s, c_loop = loop (props s),
             c_onFrameUpdate = onFrameUpdate (props s)\<rparr>"
    if "\<not> (framesCount s = 0 \<or> index < 0 \<or> index > framesCount s)"
    using that by (simp add: goToFrame_animated runTimer_def)
  have final: "activeIndex (goToFrame_done s d) = c_index d \<and> moved (goToFrame_done s d) = moved s"
    if "\<not> (c_loop d \<and> (c_index d < getClonesCount s
                       \<or> c_index d > (c_framesCount d - 1) - getClonesCount s))"
    using that by (simp add: goToFrame_done_final)
  have three: "framesCount s = 7
        \<and> (c_index d = 0 \<longrightarrow>
             activeIndex (goToFrame_done s d) = (if activeIndex s \<le> 0 then 2 else 4)
             \<and> moved (goToFrame_done s d)
                 = moved s @ [- real_of_int (if activeIndex s \<le> 0 then 2 else 4) * frameSize s])
        \<and> (c_index d = 6 \<longrightarrow>
             activeIndex (goToFrame_done s d) = (if activeIndex s \<le> 6 then 2 else 4)
             \<and> moved (goToFrame_done s d)
                 = moved s @ [- real_of_int (if activeIndex s \<le> 6 then 2 else 4) * frameSize s])"
    if h: "loop (props s)" "length (children (props s)) = 3" "clonesCount (props s) = 2"
          "c_loop d" "c_framesCount d = framesCount s"
  proof -
    have c: "getClonesCount s = 2" using h(2,3) by (simp add: getClonesCount_def)
    have ne: "children (props s) \<noteq> []" using h(2) by auto
    have fc: "framesCount s = 7" using h(1,2) c ne by (simp add: framesCount_eq)
    have nz: "framesCount s \<noteq> 0" "0 \<le> clonesCount (props s)" using fc h(3) by simp_all
    show ?thesis
      using seam_jump_lands(1,2)[OF h(1) nz h(4,5)] by (simp add: fc c)
  qed
  show ?thesis
    using timer final three goToFrame_done_jump[of d s] by blast
qed


theorem seam_jump_witness:
  "framesCount (mounted True 0) = 7
   \<and> activeIndex (mounted True 0) = 2
   \<and> runTimer (goToFrame (mounted True 0) 5 True) (length (timers (mounted True 0)))
       = goToFrame_done ((mounted True 0)\<lparr>moved := moved (mounted True 0) @ [- 1500],
                                           moving := False\<rparr>)
           \<lparr>c_index = 5, c_framesCount = 7, c_loop = True, c_onFrameUpdate = True\<rparr>
   \<and> activeIndex (goToFrame_done (mounted True 0)
        \<lparr>c_index = 0, c_framesCount = 7, c_loop = True, c_onFrameUpdate = True\<rparr>) = 4
   \<and> activeIndex (goToFrame_done (mounted True 0)
        \<lparr>c_index = 6, c_framesCount = 7, c_loop = True, c_onFrameUpdate = True\<rparr>) = 2
   \<and> activeIndex (goToFrame_done (mounted True 0)
        \<lparr>c_index = 3, c_framesCount = 7, c_loop = True, c_onFrameUpdate = True\<rparr>) = 3"
proof -
  have p: "loop (props (mounted True 0))" "length (children (props (mounted True 0))) = 3"
          "clonesCount (props (mounted True 0)) = 2" "onFrameUpdate (props (mounted True 0))"
    by (simp_all add: props_mounted three_frames_def)
  have c: "getClonesCount (mounted True 0) = 2"
    by (simp add: getClonesCount_def props_mounted three_frames_def)
  have m: "activeIndex (mounted True 0) = 2" "frameSize (mounted True 0) = 300"
    by code_simp+
  let ?d = "\<lambda>k. \<lparr>c_index = k, c_framesCount = 7, c_loop = True, c_onFrameUpdate = True\<rparr>"
  have t5: "runTimer (goToFrame (mounted True 0) 5 True) (length (timers (mounted True 0)))
       = goToFrame_done ((mounted True 0)\<lparr>moved := moved (mounted True 0) @ [- 1500],
                                           moving := False\<rparr>) (?d 5)"
    using seam_jump[of "mounted True 0" 5 "?d 5", THEN conjunct1]
    by (simp add: p c m framesCount_mounted)
  have j0: "activeIndex (goToFrame_done (mounted True 0) (?d 0)) = 4"
    using seam_jump[of "mounted True 0" 5 "?d 0", THEN conjunct2, THEN conjunct2, THEN conjunct2]
    by (simp add: p c m framesCount_mounted)
  have j6: "activeIndex (goToFrame_done (mounted True 0) (?d 6)) = 2"
    using seam_jump[of "mounted True 0" 5 "?d 6", THEN conjunct2, THEN conjunct2, THEN conjunct2]
    by (simp add: p c m framesCount_mounted)
  have f3: "activeIndex (goToFrame_done (mounted True 0) (?d 3)) = 3"
    using seam_jump[of "mounted True 0" 5 "?d 3", THEN conjunct2, THEN conjunct2, THEN conjunct1]
    by (simp add: p c m framesCount_mounted)
  show ?thesis
    using t5 j0 j6 f3 by (simp add: framesCount_mounted m)
qed

text \<open>
  Settled on the first real frame (internal index 2) of the three-frame loop,
  \<open>goTo 4\<close> completes at internal index 6 and jumps to 2, not to 4, and \<open>goTo (- 2)\<close>
  completes at internal index 0 and jumps to 4, not to 2.
\<close>

theorem seam_jump_direction_counterexample:
  "framesCount (mounted True 0) = 7
   \<and> activeIndex (mounted True 0) = 2
   \<and> timers (goTo (mounted True 0) 4)
       = [Some \<lparr>c_index = 6, c_framesCount = 7, c_loop = True, c_onFrameUpdate = True\<rparr>]
   \<and> activeIndex (runTimer (goTo (mounted True 0) 4) 0) = 2
   \<and> moved (runTimer (goTo (mounted True 0) 4) 0) = [0, - 600, - 1800, - 600]
   \<and> timers (goTo (mounted True 0) (- 2))
       = [Some \<lparr>c_index = 0, c_framesCount = 7, c_loop = True, c_onFrameUpdate = True\<rparr>]
   \<and> activeIndex (runTimer (goTo (mounted True 0) (- 2)) 0) = 4
   \<and> moved (runTimer (goTo (mounted True 0) (- 2)) 0) = [0, - 600, 0, - 1200]"
  by code_simp

section \<open>Overlapping transitions\<close>

text \<open>
  C3 (amended). A second \<open>goTo\<close> issued while an animated transition is pending does not
  cancel it: both completions stay pending and each applies its effects when its timer
  runs. When the host listens to \<open>onFrameUpdate\<close> and both targets are accepted and off
  a clone, the superseded completion sets \<open>activeIndex\<close> to the first target and
  notifies its public index; once both have run in the order issued, the settled state
  has the second target as \<open>activeIndex\<close> and \<open>onFrameUpdate\<close> has fired twice, with the
  first public index and then the second. Run in the opposite order, the first target
  is the one that remains.
\<close>

theorem overlapping_transitions_both_complete:
  assumes "timers s = []" and "onFrameUpdate (props s)"
    and "settles_directly s (toInternal s i)" and "settles_directly s (toInternal s j)"
  shows "length (timers (goTo (goTo s i) j)) = 2
         \<and> activeIndex (runTimer (goTo (goTo s i) j) 0) = toInternal s i
         \<and> notified (runTimer (goTo (goTo s i) j) 0) = notified s @ [i]
         \<and> runTimer (runTimer (goTo (goTo s i) j) 0) 0
             = s\<lparr>moved := moved s @ [- real_of_int (toInternal s i) * frameSize s,
                                       - real_of_int (toInternal s j) * frameSize s],
                 moving := False, activeIndex := toInternal s j,
                 notified := notified s @ [i, j]\<rparr>
         \<and> activeIndex (runTimer (runTimer (goTo (goTo s i) j) 1) 0) = toInternal s i
         \<and> notified (runTimer (runTimer (goTo (goTo s i) j) 1) 0) = notified s @ [j, i]"
proof -
  let ?ci = "\<lparr>c_index = toInternal s i, c_framesCount = framesCount s,
              c_loop = loop (props s), c_onFrameUpdate = True\<rparr>"
  let ?cj = "\<lparr>c_index = toInternal s j, c_framesCount = framesCount s,
              c_loop = loop (props s), c_onFrameUpdate = True\<rparr>"
  let ?s1 = "s\<lparr>moved := moved s @ [- real_of_int (toInternal s i) * frameSize s],
               moving := True, timers := [Some ?ci]\<rparr>"
  let ?s2 = "s\<lparr>moved := moved s @ [- real_of_int (toInternal s i) * frameSize s,
                                     - real_of_int (toInternal s j) * frameSize s],
               moving := True, timers := [Some ?ci, Some ?cj]\<rparr>"
  have acc_i: "\<not> (framesCount s = 0 \<or> toInternal s i < 0 \<or> toInternal s i > framesCount s)"
    and real_i: "\<not> (loop (props s) \<and> (toInternal s i < getClonesCount s
                     \<or> toInternal s i > (framesCount s - 1) - getClonesCount s))"
    using assms(3) by (simp_all add: settles_directly_def)
  have acc_j: "\<not> (framesCount s = 0 \<or> toInternal s j < 0 \<or> toInternal s j > framesCount s)"
    and real_j: "\<not> (loop (props s) \<and> (toInternal s j < getClonesCount s
                     \<or> toInternal s j > (framesCount s - 1) - getClonesCount s))"
    using assms(4) by (simp_all add: settles_directly_def)
  have s1: "goTo s i = ?s1"
    using acc_i assms(1,2) by (simp add: goTo_def goToFrame_animated)
  have same: "framesCount ?s1 = framesCount s" "toInternal ?s1 j = toInternal s j"
    "getClonesCount ?s1 = getClonesCount s"
    by (simp_all add: framesCount_eq toInternal_def getClonesCount_def)
  have s2: "goTo (goTo s i) j = ?s2"
    unfolding s1 using acc_j assms(2) same
    by (simp add: goTo_def goToFrame_animated)
  have pub: "toPublic (loop (props s)) (getClonesCount s) (toInternal s k) = k" for k
    by (rule toPublic_toInternal)
  have gc: "getClonesCount (t\<lparr>timers := ts, moving := b\<rparr>) = getClonesCount t"
    for t :: "'a component" and ts b
    by (simp add: getClonesCount_def)
  let ?a = "s\<lparr>moved := moved s @ [- real_of_int (toInternal s i) * frameSize s,
                                    - real_of_int (toInternal s j) * frameSize s],
              moving := False, timers := [Some ?cj], activeIndex := toInternal s i,
              notified := notified s @ [i]\<rparr>"
  let ?b = "s\<lparr>moved := moved s @ [- real_of_int (toInternal s i) * frameSize s,
                                    - real_of_int (toInternal s j) * frameSize s],
              moving := False, timers := [Some ?ci], activeIndex := toInternal s j,
              notified := notified s @ [j]\<rparr>"
  have r0: "runTimer ?s2 0 = ?a"
    using real_i pub by (simp add: runTimer_def goToFrame_done_final getClonesCount_def)
  have r1: "runTimer ?s2 1 = ?b"
    using real_j pub by (simp add: runTimer_def goToFrame_done_final getClonesCount_def)
  have r00: "runTimer ?a 0
      = s\<lparr>moved := moved s @ [- real_of_int (toInternal s i) * frameSize s,
                                - real_of_int (toInternal s j) * frameSize s],
          moving := False, activeIndex := toInternal s j,
          notified := notified s @ [i, j]\<rparr>"
    using real_j pub assms(1)
    by (simp add: runTimer_def goToFrame_done_final getClonesCount_def)
  have r10: "runTimer ?b 0
      = s\<lparr>moved := moved s @ [- real_of_int (toInternal s i) * frameSize s,
                                - real_of_int (toInternal s j) * frameSize s],
          moving := False, activeIndex := toInternal s i,
          notified := notified s @ [j, i]\<rparr>"
    using real_i pub assms(1)
    by (simp add: runTimer_def goToFrame_done_final getClonesCount_def)
  show ?thesis
    unfolding s2 r0 r1 r00 r10 by simp
qed


theorem overlapping_transitions_both_complete_witness:
  "notified (mounted False 0) = [0]
   \<and> length (timers (goTo (goTo (mounted False 0) 1) 2)) = 2
   \<and> activeIndex (runTimer (goTo (goTo (mounted False 0) 1) 2) 0) = 1
   \<and> notified (runTimer (goTo (goTo (mounted False 0) 1) 2) 0) = [0, 1]
   \<and> activeIndex (runTimer (runTimer (goTo (goTo (mounted False 0) 1) 2) 0) 0) = 2
   \<and> notified (runTimer (runTimer (goTo (goTo (mounted False 0) 1) 2) 0) 0) = [0, 1, 2]
   \<and> activeIndex (runTimer (runTimer (goTo (goTo (mounted False 0) 1) 2) 1) 0) = 1"
proof -
  have tm: "timers (mounted False 0) = []" and nt: "notified (mounted False 0) = [0]"
    by code_simp+
  have cb: "onFrameUpdate (props (mounted False 0))"
    by (simp add: props_mounted three_frames_def)
  have ti: "toInternal (mounted False 0) k = k" for k
    by (simp add: toInternal_def props_mounted three_frames_def)
  have st: "settles_directly (mounted False 0) (toInternal (mounted False 0) 1)"
           "settles_directly (mounted False 0) (toInternal (mounted False 0) 2)"
    by (simp_all add: ti settles_directly_def framesCount_mounted props_mounted three_frames_def)
  show ?thesis
    using overlapping_transitions_both_complete[OF tm cb st]
    by (simp add: ti nt)
qed

text \<open>
  In the three-frame carousel without looping, \<open>goTo 1\<close> followed by \<open>goTo 2\<close> before the
  first transition has completed leaves two completions pending. The superseded one
  still sets \<open>activeIndex\<close> to 1 and notifies 1; after both, \<open>onFrameUpdate\<close> has fired
  twice since the calls, not once.
\<close>

theorem superseded_completion_fires:
  "timers (mounted False 0) = []
   \<and> notified (mounted False 0) = [0]
   \<and> length (timers (goTo (goTo (mounted False 0) 1) 2)) = 2
   \<and> activeIndex (runTimer (goTo (goTo (mounted False 0) 1) 2) 0) = 1
   \<and> notified (runTimer (goTo (goTo (mounted False 0) 1) 2) 0) = [0, 1]
   \<and> timers (runTimer (runTimer (goTo (goTo (mounted False 0) 1) 2) 0) 0) = []
   \<and> activeIndex (runTimer (runTimer (goTo (goTo (mounted False 0) 1) 2) 0) 0) = 2
   \<and> notified (runTimer (runTimer (goTo (goTo (mounted False 0) 1) 2) 0) 0) = [0, 1, 2]"
  by code_simp

section \<open>Construction\<close>

text \<open>
  C4. The constructor stores \<open>startFrame\<close> as it is, also when looping is enabled: with
  three frames, \<open>clonesCount = 2\<close> and \<open>startFrame = 1\<close> the stored active index is 1 and
  not the internal index 3 of public frame 1, and the first \<open>init\<close> then takes index 1
  for a clone and settles on internal index 2, notifying public index 0.
\<close>

theorem constructor_keeps_startFrame:
  "activeIndex (constructor p) = startFrame p
   \<and> loop (three_frames True 1)
   \<and> startFrame (three_frames True 1) = 1
   \<and> getClonesCount (constructor (three_frames True 1)) = 2
   \<and> toInternal (constructor (three_frames True 1)) 1 = 3
   \<and> activeIndex (constructor (three_frames True 1)) = 1
   \<and> activeIndex (mounted True 1) = 2
   \<and> notified (mounted True 1) = [0]
   \<and> activeIndex (constructor (three_frames False 1)) = 1
   \<and> notified (mounted False 1) = [1]"
proof -
  have g: "activeIndex (constructor p) = startFrame p"
    by (simp add: constructor_def)
  have c: "loop (three_frames True 1)
   \<and> startFrame (three_frames True 1) = 1
   \<and> getClonesCount (constructor (three_frames True 1)) = 2
   \<and> toInternal (constructor (three_frames True 1)) 1 = 3
   \<and> activeIndex (constructor (three_frames True 1)) = 1
   \<and> activeIndex (mounted True 1) = 2
   \<and> notified (mounted True 1) = [0]
   \<and> activeIndex (constructor (three_frames False 1)) = 1
   \<and> notified (mounted False 1) = [1]"
    by code_simp
  from g c show ?thesis by simp
qed

section \<open>Index conversion\<close>

text \<open>
  C1. \<open>goTo\<close> turns a public index into an internal one by \<open>toInternal\<close> (in loop
  mode it adds the effective clones count \<open>getClonesCount\<close>), and a completed transition
  turns the internal index back into a public one by \<open>toPublic\<close> (in loop mode it
  subtracts the clones count) before it calls \<open>onFrameUpdate\<close>. For every index and
  every clones count the two conversions are inverse to each other in both directions,
  and with looping disabled both are the identity. So a \<open>goTo i\<close> that is accepted and
  completes off a clone reports exactly \<open>i\<close> to the host.
\<close>

theorem index_round_trip:
  "toPublic (loop (props s)) (getClonesCount s) (toInternal s i) = i
   \<and> toInternal s (toPublic (loop (props s)) (getClonesCount s) j) = j
   \<and> (\<not> loop (props s) \<longrightarrow>
        toInternal s i = i \<and> toPublic (loop (props s)) (getClonesCount s) j = j)
   \<and> (onFrameUpdate (props s) \<and> settles_directly s (toInternal s i) \<longrightarrow>
        activeIndex (runTimer (goTo s i) (length (timers s))) = toInternal s i
        \<and> notified (runTimer (goTo s i) (length (timers s))) = notified s @ [i])"
proof -
  have conv: "toPublic (loop (props s)) (getClonesCount s) (toInternal s i) = i
   \<and> toInternal s (toPublic (loop (props s)) (getClonesCount s) j) = j
   \<and> (\<not> loop (props s) \<longrightarrow>
        toInternal s i = i \<and> toPublic (loop (props s)) (getClonesCount s) j = j)"
    by (simp add: toPublic_def toInternal_def)
  have path: "activeIndex (runTimer (goTo s i) (length (timers s))) = toInternal s i
        \<and> notified (runTimer (goTo s i) (length (timers s))) = notified s @ [i]"
    if "onFrameUpdate (props s)" "settles_directly s (toInternal s i)"
    using that goToFrame_animated_settles[of s "toInternal s i"]
    by (simp add: goTo_def toPublic_toInternal)
  from conv path show ?thesis
    by simp
qed

theorem index_round_trip_witness:
  "toInternal (mounted False 0) 1 = 1
   \<and> toPublic False 2 1 = 1
   \<and> toInternal (mounted True 0) 1 = 3
   \<and> toPublic True 2 (toInternal (mounted True 0) 1) = 1
   \<and> toInternal (mounted True 0) (toPublic True 2 3) = 3
   \<and> activeIndex (runTimer (goTo (mounted True 0) 1) 0) = 3
   \<and> notified (runTimer (goTo (mounted True 0) 1) 0) = [0, 1]"
proof -
  have nl: "\<not> loop (props (mounted False 0))" and l: "loop (props (mounted True 0))"
    and cb: "onFrameUpdate (props (mounted True 0))"
    by (simp_all add: props_mounted three_frames_def)
  have c: "getClonesCount (mounted lp 0) = 2" for lp
    by (simp add: props_mounted three_frames_def getClonesCount_def)
  have i: "toInternal (mounted True 0) 1 = 3"
    by (simp add: toInternal_def c l)
  have st: "settles_directly (mounted True 0) (toInternal (mounted True 0) 1)"
    by (simp add: i settles_directly_def framesCount_mounted c)
  have m: "timers (mounted True 0) = []" "notified (mounted True 0) = [0]"
    by code_simp+
  show ?thesis
    using index_round_trip[of "mounted False 0" 1 1] index_round_trip[of "mounted True 0" 1 3]
      nl l cb c i st m
    by simp
qed

end
